theory Spec2Isabelle
  imports Main
begin

section \<open>The aggregate CSV creation cell of \<^verbatim>\<open>etl.ipynb\<close>\<close>

text \<open>
  The cell opens the aggregate file for writing, writes a header, and walks the raw CSV
  files in the order \<^verbatim>\<open>glob.glob\<close> lists them. A raw file is what \<^verbatim>\<open>csv.reader\<close>
  yields for it: a list of rows, a row being a list of fields. The file the cell writes
  is the list of rows handed to \<^verbatim>\<open>writer.writerow\<close>; \<open>file_bytes\<close> below gives its bytes.
  An exception is a value: the result of a step is either the exception together
  with the state reached when it was raised, or the new state.
\<close>

datatype py_error = IndexError | StopIteration

type_synonym row = "string list"

type_synonym csv_file = "row list"

record agg =
  read :: int
  written :: int
  output_file :: "row list"

type_synonym 'a raised = "(py_error \<times> agg) + 'a"

text \<open>\<^verbatim>\<open>row[i]\<close> for a constant index \<open>i \<ge> 0\<close>: an IndexError past the end of the list.\<close>

definition getitem :: "row \<Rightarrow> nat \<Rightarrow> py_error + string" where
  "getitem row i = (if i < length row then Inr (row ! i) else Inl IndexError)"

text \<open>
  The tuple \<^verbatim>\<open>(row[0], row[2], ..., row[16])\<close>: its items are evaluated from left to
  right and the first one out of range raises.
\<close>

fun getitems :: "row \<Rightarrow> nat list \<Rightarrow> py_error + row" where
  "getitems row [] = Inr []"
| "getitems row (i # is) =
     (case getitem row i of
        Inl e \<Rightarrow> Inl e
      | Inr v \<Rightarrow> (case getitems row is of Inl e \<Rightarrow> Inl e | Inr vs \<Rightarrow> Inr (v # vs)))"

definition header :: row where
  "header = [''artist_name'', ''user_first_name'', ''item_in_session'', ''user_last_name'',
             ''song_length'', ''session_id'', ''song_title'', ''user_id'']"

definition columns :: "nat list" where
  "columns = [0, 2, 4, 5, 6, 12, 13, 16]"

text \<open>The body of \<^verbatim>\<open>for row in reader\<close>.\<close>

definition process_row :: "agg \<Rightarrow> row \<Rightarrow> agg raised" where
  "process_row s row =
     (let s1 = s\<lparr>read := read s + 1\<rparr> in
      case getitem row 10 of
        Inl e \<Rightarrow> Inl (e, s1)
      | Inr page \<Rightarrow>
          if page = ''NextSong'' then
            (case getitems row columns of
               Inl e \<Rightarrow> Inl (e, s1)
             | Inr vs \<Rightarrow> Inr (s1\<lparr>output_file := output_file s1 @ [vs],
                                  written := written s1 + 1\<rparr>))
          else Inr s1)"

fun process_rows :: "agg \<Rightarrow> row list \<Rightarrow> agg raised" where
  "process_rows s [] = Inr s"
| "process_rows s (row # rows) =
     (case process_row s row of Inl e \<Rightarrow> Inl e | Inr s' \<Rightarrow> process_rows s' rows)"

text \<open>
  One raw file: \<^verbatim>\<open>next(reader)\<close> skips the header and raises StopIteration when the
  reader yields nothing; the remaining rows go through the loop.
\<close>

definition process_file :: "agg \<Rightarrow> csv_file \<Rightarrow> agg raised" where
  "process_file s f =
     (case f of
        [] \<Rightarrow> Inl (StopIteration, s)
      | hd_row # rows \<Rightarrow> process_rows s rows)"

fun process_files :: "agg \<Rightarrow> csv_file list \<Rightarrow> agg raised" where
  "process_files s [] = Inr s"
| "process_files s (f # fs) =
     (case process_file s f of Inl e \<Rightarrow> Inl e | Inr s' \<Rightarrow> process_files s' fs)"

text \<open>\<^verbatim>\<open>open(OUTPUT_CSV, "w")\<close> truncates whatever the file held.\<close>

definition open_w :: "row list \<Rightarrow> row list" where
  "open_w old = []"

text \<open>The three numbers of the final \<^verbatim>\<open>print\<close>: read, written, discarded.\<close>

definition counters :: "agg \<Rightarrow> int \<times> int \<times> int" where
  "counters s = (read s, written s, read s - written s)"

text \<open>
  The whole cell, from the previous content of the aggregate file and the raw files in
  discovery order. The counters are printed only when the loops finish.
\<close>

definition aggregate :: "row list \<Rightarrow> csv_file list \<Rightarrow> (agg \<times> (int \<times> int \<times> int)) raised" where
  "aggregate old files =
     (let s0 = \<lparr>read = 0, written = 0, output_file = open_w old @ [header]\<rparr> in
      case process_files s0 files of
        Inl e \<Rightarrow> Inl e
      | Inr s \<Rightarrow> Inr (s, counters s))"

text \<open>The aggregate file a run leaves on disk, whether it finished or was aborted.\<close>

definition left_on_disk :: "(agg \<times> (int \<times> int \<times> int)) raised \<Rightarrow> row list" where
  "left_on_disk r = (case r of Inl (e, s) \<Rightarrow> output_file s | Inr (s, c) \<Rightarrow> output_file s)"

subsection \<open>The bytes \<^verbatim>\<open>csv.writer\<close> produces with \<^verbatim>\<open>QUOTE_ALL\<close>\<close>

text \<open>
  The writer uses the default dialect: fields separated by a comma, every field between
  double quotes, a double quote inside a field doubled, lines ended by CR LF.
\<close>

definition dquote :: char where
  "dquote = CHR 0x22"

definition quote_field :: "string \<Rightarrow> string" where
  "quote_field f = dquote # concat (map (\<lambda>c. if c = dquote then [dquote, dquote] else [c]) f) @ [dquote]"

fun join :: "string \<Rightarrow> string list \<Rightarrow> string" where
  "join sep [] = []"
| "join sep [x] = x"
| "join sep (x # y # ys) = x @ sep @ join sep (y # ys)"

definition writerow :: "row \<Rightarrow> string" where
  "writerow r = join '','' (map quote_field r) @ [CHR 0x0D, CHR 0x0A]"

definition file_bytes :: "row list \<Rightarrow> string" where
  "file_bytes rows = concat (map writerow rows)"

subsection \<open>Reading the bytes back\<close>

text \<open>
  A reader for lines in which every field stands between double quotes: it refuses a
  field that does not start with a double quote, takes two double quotes inside a field
  for one, and ends a line at CR LF. It is used to say what the bytes written hold.
\<close>

datatype mode = Row_start | Field_start | In_field | Quote_seen | Cr_seen

fun decode :: "mode \<Rightarrow> string \<Rightarrow> row \<Rightarrow> row list \<Rightarrow> string \<Rightarrow> row list option" where
  "decode m f r acc [] = (if m = Row_start then Some acc else None)"
| "decode Row_start f r acc (c # cs) =
     (if c = dquote then decode In_field [] [] acc cs
      else if c = CHR 0x0D then decode Cr_seen [] [] acc cs
      else None)"
| "decode Field_start f r acc (c # cs) =
     (if c = dquote then decode In_field [] r acc cs else None)"
| "decode In_field f r acc (c # cs) =
     (if c = dquote then decode Quote_seen f r acc cs else decode In_field (f @ [c]) r acc cs)"
| "decode Quote_seen f r acc (c # cs) =
     (if c = dquote then decode In_field (f @ [dquote]) r acc cs
      else if c = CHR '','' then decode Field_start [] (r @ [f]) acc cs
      else if c = CHR 0x0D then decode Cr_seen [] (r @ [f]) acc cs
      else None)"
| "decode Cr_seen f r acc (c # cs) =
     (if c = CHR 0x0A then decode Row_start [] [] (acc @ [r]) cs else None)"

definition read_back :: "string \<Rightarrow> row list option" where
  "read_back bytes = decode Row_start [] [] [] bytes"

subsection \<open>Rows as the specification speaks of them\<close>

text \<open>A row whose event-type field, at index 10, is the sentinel.\<close>

definition qualifies :: "row \<Rightarrow> bool" where
  "qualifies r = (10 < length r \<and> r ! 10 = ''NextSong'')"

text \<open>The projection of a row on the offsets 0, 2, 4, 5, 6, 12, 13, 16.\<close>

definition project :: "row \<Rightarrow> row" where
  "project r = [r ! 0, r ! 2, r ! 4, r ! 5, r ! 6, r ! 12, r ! 13, r ! 16]"

text \<open>A row on which the loop body raises: an index it evaluates is out of range.\<close>

definition fatal_row :: "row \<Rightarrow> bool" where
  "fatal_row r = (length r \<le> 10 \<or> (r ! 10 = ''NextSong'' \<and> length r < 17))"

text \<open>The data rows of all files, in processing order.\<close>

definition data_rows :: "csv_file list \<Rightarrow> row list" where
  "data_rows files = concat (map tl files)"

text \<open>Inputs on which nothing raises: every file has a first line and no data row is fatal.\<close>

definition well_formed :: "csv_file list \<Rightarrow> bool" where
  "well_formed files = (\<forall>f \<in> set files. f \<noteq> [] \<and> (\<forall>r \<in> set (tl f). \<not> fatal_row r))"

text \<open>The state after a list of rows none of which raises.\<close>

definition after_rows :: "agg \<Rightarrow> row list \<Rightarrow> agg" where
  "after_rows s rows =
     s\<lparr>read := read s + int (length rows),
       output_file := output_file s @ map project (filter qualifies rows),
       written := written s + int (length (filter qualifies rows))\<rparr>"


section \<open>The batch loading cell\<close>

text \<open>
  The cell reads the aggregate file back with \<^verbatim>\<open>pd.read_csv\<close> in frames of
  \<^verbatim>\<open>CHUNK_SIZE\<close> records. A record of a frame has the eight columns of the header; the
  type \<open>'v\<close> stands for the cell values pandas reads. For each record three prepared
  inserts are added to the one \<^verbatim>\<open>BatchStatement\<close>, which is then executed.
  Only \<^verbatim>\<open>session.execute\<close> sits inside the \<^verbatim>\<open>try\<close>: an exception of \<^verbatim>\<open>batch.add\<close>
  ends the cell.
\<close>

record 'v event =
  artist_name :: 'v
  user_first_name :: 'v
  item_in_session :: 'v
  user_last_name :: 'v
  song_length :: 'v
  session_id :: 'v
  song_title :: 'v
  user_id :: 'v

datatype prepared =
  songs_by_session_insert_query | songs_by_user_insert_query | users_by_song_insert_query

type_synonym 'v statement = "prepared \<times> 'v list"

definition songs_by_session_columns :: "('v event \<Rightarrow> 'v) list" where
  "songs_by_session_columns = [session_id, item_in_session, artist_name, song_title, song_length]"

definition songs_by_user_columns :: "('v event \<Rightarrow> 'v) list" where
  "songs_by_user_columns =
     [user_id, session_id, item_in_session, artist_name, song_title, user_first_name, user_last_name]"

definition users_by_song_columns :: "('v event \<Rightarrow> 'v) list" where
  "users_by_song_columns = [song_title, user_id, user_first_name, user_last_name]"

text \<open>
  The column types of the three \<^verbatim>\<open>CREATE TABLE\<close> statements, in the order of the
  columns of each \<^verbatim>\<open>INSERT\<close>.
\<close>

datatype cql_type = Cql_int | Cql_text | Cql_float

definition column_types :: "prepared \<Rightarrow> cql_type list" where
  "column_types q =
     (case q of
        songs_by_session_insert_query \<Rightarrow> [Cql_int, Cql_int, Cql_text, Cql_text, Cql_float]
      | songs_by_user_insert_query \<Rightarrow>
          [Cql_int, Cql_int, Cql_int, Cql_text, Cql_text, Cql_text, Cql_text]
      | users_by_song_insert_query \<Rightarrow> [Cql_text, Cql_int, Cql_text, Cql_text])"

text \<open>\<^verbatim>\<open>row[cols].values.tolist()\<close>.\<close>

definition select_columns :: "'v event \<Rightarrow> ('v event \<Rightarrow> 'v) list \<Rightarrow> 'v list" where
  "select_columns row cols = map (\<lambda>c. c row) cols"

definition CHUNK_SIZE :: nat where
  "CHUNK_SIZE = 100"

text \<open>Successive slices of at most \<open>n\<close> records, the last one holding what remains.\<close>

function frames :: "nat \<Rightarrow> 'a list \<Rightarrow> 'a list list" where
  "frames n xs = (if n = 0 \<or> xs = [] then [] else take n xs # frames n (drop n xs))"
  by pat_completeness auto
termination
  by (relation "measure (\<lambda>(n, xs). length xs)") auto

declare frames.simps [simp del]

text \<open>
  The frames \<^verbatim>\<open>pd.read_csv(path, chunksize=n)\<close> iterates over: the records in order,
  \<open>n\<close> at a time. The iterator ends at the first read that finds no record, except that
  the very first read gives a frame in any case: for a file that holds the header and
  no record, pandas yields one empty frame.
\<close>

definition read_csv :: "nat \<Rightarrow> 'a list \<Rightarrow> 'a list list" where
  "read_csv n xs = (if xs = [] then [[]] else frames n xs)"

text \<open>
  The state of the cell. \<open>session\<close> is the state of the store behind the driver's
  session; \<open>executed\<close> records every call of \<^verbatim>\<open>session.execute(batch)\<close>, with the
  statements the batch held and the exception the call raised, if any; \<open>stdout\<close> holds
  the lines printed by the handler.
\<close>

record ('v, 'st) loader =
  batches :: int
  records :: int
  batch :: "'v statement list"
  session :: 'st
  executed :: "('v statement list \<times> string option) list"
  stdout :: "string list"

text \<open>
  \<^verbatim>\<open>batch.add(query, values)\<close> of the driver. It first binds the values to the columns
  of the prepared statement, which raises when a value does not serialise as its
  column's type; the binding is a parameter of the model: \<open>bind\<close> gives the message of
  that exception, or \<open>None\<close>. It then refuses, with a \<^verbatim>\<open>ValueError\<close>, a statement
  beyond the 65535 that a batch can hold. Otherwise the statement is appended.
\<close>

datatype add_error = Bind_raised string | Too_many_statements

definition MAX_STATEMENTS :: nat where
  "MAX_STATEMENTS = 65535"

definition batch_add ::
  "(prepared \<Rightarrow> 'v list \<Rightarrow> string option) \<Rightarrow> 'v statement list \<Rightarrow> 'v statement
     \<Rightarrow> add_error + 'v statement list" where
  "batch_add bind b s =
     (case bind (fst s) (snd s) of
        Some m \<Rightarrow> Inl (Bind_raised m)
      | None \<Rightarrow> if MAX_STATEMENTS \<le> length b then Inl Too_many_statements else Inr (b @ [s]))"

text \<open>The three statements added for one record, in order.\<close>

definition inserts :: "'v event \<Rightarrow> 'v statement list" where
  "inserts row =
     [(songs_by_session_insert_query, select_columns row songs_by_session_columns),
      (songs_by_user_insert_query, select_columns row songs_by_user_columns),
      (users_by_song_insert_query, select_columns row users_by_song_columns)]"

text \<open>Calls of \<^verbatim>\<open>batch.add\<close> one after the other; the first that raises ends them.\<close>

fun add_all ::
  "(prepared \<Rightarrow> 'v list \<Rightarrow> string option) \<Rightarrow> 'v statement list \<Rightarrow> 'v statement list
     \<Rightarrow> (add_error \<times> 'v statement list) + 'v statement list" where
  "add_all bind b [] = Inr b"
| "add_all bind b (s # ss) =
     (case batch_add bind b s of Inl e \<Rightarrow> Inl (e, b) | Inr b' \<Rightarrow> add_all bind b' ss)"

text \<open>
  The body of \<^verbatim>\<open>for _, row in df.iterrows()\<close>: three calls of \<^verbatim>\<open>batch.add\<close>, then
  \<^verbatim>\<open>records += 3\<close>.
\<close>

definition add_row ::
  "(prepared \<Rightarrow> 'v list \<Rightarrow> string option) \<Rightarrow> ('v, 'st) loader \<Rightarrow> 'v event
     \<Rightarrow> (add_error \<times> ('v, 'st) loader) + ('v, 'st) loader" where
  "add_row bind l row =
     (case add_all bind (batch l) (inserts row) of
        Inl (e, b) \<Rightarrow> Inl (e, l\<lparr>batch := b\<rparr>)
      | Inr b \<Rightarrow> Inr (l\<lparr>batch := b, records := records l + 3\<rparr>))"

fun add_rows ::
  "(prepared \<Rightarrow> 'v list \<Rightarrow> string option) \<Rightarrow> ('v, 'st) loader \<Rightarrow> 'v event list
     \<Rightarrow> (add_error \<times> ('v, 'st) loader) + ('v, 'st) loader" where
  "add_rows bind l [] = Inr l"
| "add_rows bind l (row # rows) =
     (case add_row bind l row of Inl x \<Rightarrow> Inl x | Inr l' \<Rightarrow> add_rows bind l' rows)"

text \<open>
  The \<^verbatim>\<open>try\<close> statement. The store is a parameter: \<open>exec\<close> takes the store's state and
  the batch and gives the exception raised (\<open>None\<close> when the call returns) and the
  store's new state. The \<^verbatim>\<open>except\<close> branch prints two lines; the \<^verbatim>\<open>else\<close> branch
  clears the batch and counts it.
\<close>

definition submit ::
  "('st \<Rightarrow> 'v statement list \<Rightarrow> string option \<times> 'st) \<Rightarrow> ('v, 'st) loader \<Rightarrow> ('v, 'st) loader" where
  "submit exec l1 =
     (let (exn, st') = exec (session l1) (batch l1);
          l2 = l1\<lparr>session := st', executed := executed l1 @ [(batch l1, exn)]\<rparr>
      in case exn of
           Some e \<Rightarrow> l2\<lparr>stdout := stdout l2 @ [''Error while processing a batch statement'', e]\<rparr>
         | None \<Rightarrow> l2\<lparr>batch := [], batches := batches l2 + 1\<rparr>)"

text \<open>The body of \<^verbatim>\<open>for df in pd.read_csv(...)\<close>.\<close>

definition process_chunk ::
  "(prepared \<Rightarrow> 'v list \<Rightarrow> string option) \<Rightarrow> ('st \<Rightarrow> 'v statement list \<Rightarrow> string option \<times> 'st)
     \<Rightarrow> ('v, 'st) loader \<Rightarrow> 'v event list \<Rightarrow> (add_error \<times> ('v, 'st) loader) + ('v, 'st) loader" where
  "process_chunk bind exec l df =
     (case add_rows bind l df of Inl x \<Rightarrow> Inl x | Inr l1 \<Rightarrow> Inr (submit exec l1))"

fun process_chunks ::
  "(prepared \<Rightarrow> 'v list \<Rightarrow> string option) \<Rightarrow> ('st \<Rightarrow> 'v statement list \<Rightarrow> string option \<times> 'st)
     \<Rightarrow> ('v, 'st) loader \<Rightarrow> 'v event list list
     \<Rightarrow> (add_error \<times> ('v, 'st) loader) + ('v, 'st) loader" where
  "process_chunks bind exec l [] = Inr l"
| "process_chunks bind exec l (df # dfs) =
     (case process_chunk bind exec l df of
        Inl x \<Rightarrow> Inl x
      | Inr l' \<Rightarrow> process_chunks bind exec l' dfs)"

text \<open>
  The whole cell. When the loop ends, the pair is what the final \<^verbatim>\<open>print\<close> shows:
  batches, records. When a \<^verbatim>\<open>batch.add\<close> raises, nothing is printed.
\<close>

definition load ::
  "(prepared \<Rightarrow> 'v list \<Rightarrow> string option) \<Rightarrow> ('st \<Rightarrow> 'v statement list \<Rightarrow> string option \<times> 'st)
     \<Rightarrow> 'st \<Rightarrow> 'v event list
     \<Rightarrow> (add_error \<times> ('v, 'st) loader) + (('v, 'st) loader \<times> (int \<times> int))" where
  "load bind exec st rows =
     (let l0 = \<lparr>batches = 0, records = 0, batch = [], session = st, executed = [], stdout = []\<rparr>
      in case process_chunks bind exec l0 (read_csv CHUNK_SIZE rows) of
           Inl x \<Rightarrow> Inl x
         | Inr l \<Rightarrow> Inr (l, (batches l, records l)))"

text \<open>What a run of the cell raised, the state it stopped or ended in, and what it printed.\<close>

definition raised_by ::
  "(add_error \<times> ('v, 'st) loader) + (('v, 'st) loader \<times> (int \<times> int)) \<Rightarrow> add_error option" where
  "raised_by r = (case r of Inl (e, l) \<Rightarrow> Some e | Inr (l, p) \<Rightarrow> None)"

definition state_of ::
  "(add_error \<times> ('v, 'st) loader) + (('v, 'st) loader \<times> (int \<times> int)) \<Rightarrow> ('v, 'st) loader" where
  "state_of r = (case r of Inl (e, l) \<Rightarrow> l | Inr (l, p) \<Rightarrow> l)"

definition printed_by ::
  "(add_error \<times> ('v, 'st) loader) + (('v, 'st) loader \<times> (int \<times> int)) \<Rightarrow> (int \<times> int) option" where
  "printed_by r = (case r of Inl (e, l) \<Rightarrow> None | Inr (l, p) \<Rightarrow> Some p)"

subsection \<open>The batches a run sends when every statement can be added\<close>

text \<open>
  The batch of a frame is what the batch still held, followed by the inserts of the
  records of the frame; the store answers; a refused batch is what the next frame
  starts from, an accepted one leaves nothing.
\<close>

fun trace ::
  "('st \<Rightarrow> 'v statement list \<Rightarrow> string option \<times> 'st) \<Rightarrow> 'st \<Rightarrow> 'v statement list
     \<Rightarrow> 'v event list list \<Rightarrow> ('v statement list \<times> string option) list" where
  "trace exec st held [] = []"
| "trace exec st held (df # dfs) =
     (case exec st (held @ concat (map inserts df)) of
        (None, st') \<Rightarrow> (held @ concat (map inserts df), None) # trace exec st' [] dfs
      | (Some e, st') \<Rightarrow>
          (held @ concat (map inserts df), Some e)
            # trace exec st' (held @ concat (map inserts df)) dfs)"

text \<open>The state after a list of frames none of whose statements fails to be added.\<close>

fun after_frames ::
  "('st \<Rightarrow> 'v statement list \<Rightarrow> string option \<times> 'st) \<Rightarrow> ('v, 'st) loader
     \<Rightarrow> 'v event list list \<Rightarrow> ('v, 'st) loader" where
  "after_frames exec l [] = l"
| "after_frames exec l (df # dfs) =
     after_frames exec
       (submit exec (l\<lparr>batch := batch l @ concat (map inserts df),
                       records := records l + 3 * int (length df)\<rparr>)) dfs"

text \<open>The lines the handler prints for a list of answers.\<close>

definition reports :: "('v statement list \<times> string option) list \<Rightarrow> string list" where
  "reports tr =
     concat (map (\<lambda>p. case snd p of
                         None \<Rightarrow> []
                       | Some e \<Rightarrow> [''Error while processing a batch statement'', e]) tr)"

text \<open>Every value of a record binds to its column.\<close>

definition binds :: "(prepared \<Rightarrow> 'v list \<Rightarrow> string option) \<Rightarrow> 'v event \<Rightarrow> bool" where
  "binds bind row = (\<forall>s \<in> set (inserts row). bind (fst s) (snd s) = None)"

text \<open>
  No \<^verbatim>\<open>batch.add\<close> raises: every record binds, and no batch has to hold more
  statements than a batch can.
\<close>

definition adds_succeed ::
  "(prepared \<Rightarrow> 'v list \<Rightarrow> string option) \<Rightarrow> ('st \<Rightarrow> 'v statement list \<Rightarrow> string option \<times> 'st)
     \<Rightarrow> 'st \<Rightarrow> 'v event list \<Rightarrow> bool" where
  "adds_succeed bind exec st rows =
     ((\<forall>row \<in> set rows. binds bind row)
      \<and> (\<forall>p \<in> set (trace exec st [] (read_csv CHUNK_SIZE rows)). length (fst p) \<le> MAX_STATEMENTS))"

section \<open>The cells that drop the tables and close the session\<close>

datatype table = songs_by_session | songs_by_user | users_by_song

text \<open>
  \<open>db\<close> is the state of the store, \<open>attempts\<close> the \<^verbatim>\<open>DROP TABLE\<close> statements sent to
  it, \<open>printed\<close> the lines the handler printed.
\<close>

record 'st teardown =
  db :: 'st
  attempts :: "table list"
  printed :: "string list"
  session_open :: bool
  cluster_open :: bool

text \<open>
  The statements of the \<^verbatim>\<open>try\<close> block, one after the other: the first that raises
  leaves the block. \<open>drp\<close> stands for \<^verbatim>\<open>session.execute("DROP TABLE ...")\<close>.
\<close>

fun execute_drops ::
  "('st \<Rightarrow> table \<Rightarrow> string option \<times> 'st) \<Rightarrow> 'st teardown \<Rightarrow> table list
     \<Rightarrow> string option \<times> 'st teardown" where
  "execute_drops drp t [] = (None, t)"
| "execute_drops drp t (x # xs) =
     (case drp (db t) x of
        (Some e, d) \<Rightarrow> (Some e, t\<lparr>db := d, attempts := attempts t @ [x]\<rparr>)
      | (None, d) \<Rightarrow> execute_drops drp (t\<lparr>db := d, attempts := attempts t @ [x]\<rparr>) xs)"

definition drop_tables ::
  "('st \<Rightarrow> table \<Rightarrow> string option \<times> 'st) \<Rightarrow> 'st teardown \<Rightarrow> 'st teardown" where
  "drop_tables drp t =
     (case execute_drops drp t [songs_by_session, songs_by_user, users_by_song] of
        (Some e, t') \<Rightarrow> t'\<lparr>printed := printed t' @ [''Error while dropping the table'', e]\<rparr>
      | (None, t') \<Rightarrow> t')"

text \<open>\<^verbatim>\<open>session.shutdown()\<close> and \<^verbatim>\<open>cluster.shutdown()\<close>.\<close>

definition close_session :: "'st teardown \<Rightarrow> 'st teardown" where
  "close_session t = (t\<lparr>session_open := False\<rparr>)\<lparr>cluster_open := False\<rparr>"

definition run_teardown ::
  "('st \<Rightarrow> table \<Rightarrow> string option \<times> 'st) \<Rightarrow> 'st teardown \<Rightarrow> 'st teardown" where
  "run_teardown drp t = close_session (drop_tables drp t)"

section \<open>Sample data, a sample driver and sample stores\<close>

definition raw_header :: row where
  "raw_header = [''artist'', ''auth'', ''firstName'', ''gender'', ''itemInSession'', ''lastName'',
                 ''length'', ''level'', ''location'', ''method'', ''page'', ''registration'',
                 ''sessionId'', ''song'', ''status'', ''ts'', ''userId'']"

definition song_row :: row where
  "song_row = [''Muse'', ''Logged In'', ''Ann'', ''F'', ''4'', ''Lee'', ''304.8'', ''paid'',
               ''Bilbao'', ''PUT'', ''NextSong'', ''1.54E12'', ''338'', ''Uprising'', ''200'',
               ''1541'', ''10'']"

definition login_row :: row where
  "login_row = [[], ''Logged Out'', [], [], ''0'', [], [], ''free'', [], ''GET'',
                ''Login'', [], ''52'', [], ''200'', ''1541'', []]"

definition short_login :: row where
  "short_login = [[], ''Logged Out'', [], [], ''0'', [], [], ''free'', [], ''GET'', ''Login'']"

definition short_song :: row where
  "short_song = [''Muse'', ''Logged In'', ''Ann'', ''F'', ''4'', ''Lee'', ''304.8'', ''paid'',
                 ''Bilbao'', ''PUT'', ''NextSong'']"

definition tiny_row :: row where
  "tiny_row = [''Muse'', ''Logged In'', ''Ann'']"

text \<open>
  Cell values as pandas reads them: an integer, a float (kept as its decimal text), a
  string, or the NaN of a missing value.
\<close>

datatype cell = Int_cell int | Float_cell string | Str_cell string | NaN

definition ev :: "cell event" where
  "ev = \<lparr>artist_name = Str_cell ''Muse'', user_first_name = Str_cell ''Ann'',
          item_in_session = Int_cell 4, user_last_name = Str_cell ''Lee'',
          song_length = Float_cell ''304.8'', session_id = Int_cell 338,
          song_title = Str_cell ''Uprising'', user_id = Int_cell 10\<rparr>"

text \<open>The same record read from a line whose title is missing.\<close>

definition ev_no_title :: "cell event" where
  "ev_no_title = ev\<lparr>song_title := NaN\<rparr>"

text \<open>
  A driver that binds values by the column types: an \<^verbatim>\<open>int\<close> column takes an integer of
  32 bits, a \<^verbatim>\<open>text\<close> column a string, a \<^verbatim>\<open>float\<close> column a float, an integer or NaN.
\<close>

definition fits :: "cql_type \<Rightarrow> cell \<Rightarrow> bool" where
  "fits ty v =
     (case ty of
        Cql_int \<Rightarrow> (case v of Int_cell i \<Rightarrow> - 2147483648 \<le> i \<and> i \<le> 2147483647 | _ \<Rightarrow> False)
      | Cql_text \<Rightarrow> (case v of Str_cell s \<Rightarrow> True | _ \<Rightarrow> False)
      | Cql_float \<Rightarrow> (case v of Str_cell s \<Rightarrow> False | _ \<Rightarrow> True))"

definition typed_bind :: "prepared \<Rightarrow> cell list \<Rightarrow> string option" where
  "typed_bind q vs =
     (if length vs = length (column_types q) \<and> list_all2 fits (column_types q) vs
      then None else Some ''invalid type'')"

text \<open>
  Three stores, whose state counts the batches received: one accepts every batch, one
  refuses every batch, one refuses only the first it gets.
\<close>

definition accept_all :: "nat \<Rightarrow> cell statement list \<Rightarrow> string option \<times> nat" where
  "accept_all n b = (None, Suc n)"

definition always_fail :: "nat \<Rightarrow> cell statement list \<Rightarrow> string option \<times> nat" where
  "always_fail n b = (Some ''unavailable'', Suc n)"

definition fail_first :: "nat \<Rightarrow> cell statement list \<Rightarrow> string option \<times> nat" where
  "fail_first n b = (if n = 0 then Some ''unavailable'' else None, Suc n)"


text \<open>
  A store holding a list of tables, in which \<^verbatim>\<open>DROP TABLE\<close> raises for a table that does
  not exist and removes one that does.
\<close>

definition drop_existing :: "table list \<Rightarrow> table \<Rightarrow> string option \<times> table list" where
  "drop_existing ts x =
     (if x \<in> set ts then (None, removeAll x ts) else (Some ''unconfigured table'', ts))"

section \<open>Facts about the aggregator\<close>

lemma getitems_columns_ok:
  "17 \<le> length r \<Longrightarrow> getitems r columns = Inr (project r)"
  by (auto simp add: columns_def getitem_def project_def)

lemma getitems_columns_raise:
  "length r < 17 \<Longrightarrow> getitems r columns = Inl IndexError"
  by (simp add: columns_def getitem_def split: sum.splits)

lemma process_row_short:
  "length r \<le> 10 \<Longrightarrow> process_row s r = Inl (IndexError, s\<lparr>read := read s + 1\<rparr>)"
  by (simp add: process_row_def getitem_def Let_def)

lemma process_row_other:
  "10 < length r \<Longrightarrow> r ! 10 \<noteq> ''NextSong'' \<Longrightarrow> process_row s r = Inr (s\<lparr>read := read s + 1\<rparr>)"
  by (simp add: process_row_def getitem_def Let_def)

lemma process_row_song:
  "17 \<le> length r \<Longrightarrow> r ! 10 = ''NextSong'' \<Longrightarrow>
   process_row s r = Inr (s\<lparr>read := read s + 1, output_file := output_file s @ [project r],
                            written := written s + 1\<rparr>)"
  by (simp add: process_row_def getitem_def Let_def getitems_columns_ok)

lemma process_row_song_short:
  "10 < length r \<Longrightarrow> length r < 17 \<Longrightarrow> r ! 10 = ''NextSong'' \<Longrightarrow>
   process_row s r = Inl (IndexError, s\<lparr>read := read s + 1\<rparr>)"
  by (simp add: process_row_def getitem_def Let_def getitems_columns_raise)

lemma process_row_fatal:
  "fatal_row r \<Longrightarrow> process_row s r = Inl (IndexError, s\<lparr>read := read s + 1\<rparr>)"
  unfolding fatal_row_def
  using process_row_short [of r s] process_row_song_short [of r s]
  by (cases "length r \<le> 10") auto

lemma process_row_not_fatal:
  "\<not> fatal_row r \<Longrightarrow>
   process_row s r =
     Inr (if qualifies r
          then s\<lparr>read := read s + 1, output_file := output_file s @ [project r],
                 written := written s + 1\<rparr>
          else s\<lparr>read := read s + 1\<rparr>)"
  unfolding fatal_row_def qualifies_def
  using process_row_other [of r s] process_row_song [of r s]
  by (cases "r ! 10 = ''NextSong''") auto

lemma after_rows_Nil: "after_rows s [] = s"
  by (simp add: after_rows_def)

lemma after_rows_Cons:
  "after_rows s (r # rows) =
     after_rows (if qualifies r
                 then s\<lparr>read := read s + 1, output_file := output_file s @ [project r],
                        written := written s + 1\<rparr>
                 else s\<lparr>read := read s + 1\<rparr>) rows"
  by (simp add: after_rows_def)

lemma after_rows_append: "after_rows s (xs @ ys) = after_rows (after_rows s xs) ys"
  by (simp add: after_rows_def)

lemma process_rows_ok:
  "\<forall>r \<in> set rows. \<not> fatal_row r \<Longrightarrow> process_rows s rows = Inr (after_rows s rows)"
proof (induction rows arbitrary: s)
  case Nil
  show ?case by (simp add: after_rows_Nil)
next
  case (Cons r rows)
  from Cons.prems have nf: "\<not> fatal_row r" and rest: "\<forall>x \<in> set rows. \<not> fatal_row x"
    by simp_all
  show ?case
    by (simp only: process_rows.simps process_row_not_fatal [OF nf] sum.case
          Cons.IH [OF rest] after_rows_Cons)
qed

lemma process_rows_append:
  "process_rows s (xs @ ys) =
     (case process_rows s xs of Inl e \<Rightarrow> Inl e | Inr s' \<Rightarrow> process_rows s' ys)"
  by (induction xs arbitrary: s) (auto split: sum.splits)

lemma process_files_append:
  "process_files s (fs @ gs) =
     (case process_files s fs of Inl e \<Rightarrow> Inl e | Inr s' \<Rightarrow> process_files s' gs)"
  by (induction fs arbitrary: s) (auto split: sum.splits)

lemma process_files_ok:
  "well_formed files \<Longrightarrow> process_files s files = Inr (after_rows s (data_rows files))"
proof (induction files arbitrary: s)
  case Nil
  show ?case by (simp add: data_rows_def after_rows_Nil)
next
  case (Cons f fs)
  from Cons.prems have ne: "f \<noteq> []" and rows: "\<forall>r \<in> set (tl f). \<not> fatal_row r"
    and rest: "well_formed fs"
    by (simp_all add: well_formed_def)
  from ne obtain h rs where f: "f = h # rs" by (cases f) auto
  from rows f have "process_file s f = Inr (after_rows s rs)"
    by (simp add: process_file_def process_rows_ok)
  then show ?case
    using Cons.IH [OF rest, of "after_rows s rs"] f
    by (simp add: data_rows_def after_rows_append)
qed

text \<open>A run that finishes was given well-formed input.\<close>

lemma process_rows_Inr_not_fatal:
  "process_rows s rows = Inr s' \<Longrightarrow> \<forall>r \<in> set rows. \<not> fatal_row r"
proof (induction rows arbitrary: s)
  case Nil
  show ?case by simp
next
  case (Cons r rows)
  show ?case
  proof (cases "fatal_row r")
    case True
    with Cons.prems show ?thesis by (simp add: process_row_fatal)
  next
    case False
    from Cons.prems obtain s1 where "process_rows s1 rows = Inr s'"
      by (auto split: sum.splits)
    from Cons.IH [OF this] False show ?thesis by simp
  qed
qed

lemma process_files_Inr_well_formed:
  "process_files s files = Inr s' \<Longrightarrow> well_formed files"
proof (induction files arbitrary: s)
  case Nil
  show ?case by (simp add: well_formed_def)
next
  case (Cons f fs)
  from Cons.prems obtain s1 where f: "process_file s f = Inr s1" and fs: "process_files s1 fs = Inr s'"
    by (auto split: sum.splits)
  from f obtain h rs where ff: "f = h # rs" and rs: "process_rows s rs = Inr s1"
    by (auto simp: process_file_def split: list.splits)
  from process_rows_Inr_not_fatal [OF rs] ff Cons.IH [OF fs] show ?case
    by (simp add: well_formed_def)
qed


lemma process_rows_output_prefix:
  "\<exists>rows. output_file (case process_rows s xs of Inl (e, s') \<Rightarrow> s' | Inr s' \<Rightarrow> s') = output_file s @ rows"
proof (induction xs arbitrary: s)
  case Nil
  show ?case by simp
next
  case (Cons r xs)
  show ?case
  proof (cases "fatal_row r")
    case True
    then show ?thesis by (simp add: process_row_fatal)
  next
    case False
    obtain s1 where s1: "process_row s r = Inr s1" and "\<exists>rows. output_file s1 = output_file s @ rows"
      using process_row_not_fatal [OF False, of s] by auto
    with Cons.IH [of s1] show ?thesis by auto
  qed
qed

lemma process_files_output_prefix:
  "\<exists>rows. output_file (case process_files s fs of Inl (e, s') \<Rightarrow> s' | Inr s' \<Rightarrow> s') = output_file s @ rows"
proof (induction fs arbitrary: s)
  case Nil
  show ?case by simp
next
  case (Cons f fs)
  show ?case
  proof (cases "process_file s f")
    case (Inl p)
    obtain e s' where p: "p = (e, s')" by (cases p)
    show ?thesis
    proof (cases f)
      case Nil
      with Inl show ?thesis by (auto simp add: process_file_def)
    next
      case (Cons h rs)
      with Inl process_rows_output_prefix [of s rs] show ?thesis
        by (simp add: process_file_def)
    qed
  next
    case (Inr s1)
    then obtain h rs where f: "f = h # rs" and rs: "process_rows s rs = Inr s1"
      by (auto simp: process_file_def split: list.splits)
    from process_rows_output_prefix [of s rs] rs obtain xs where "output_file s1 = output_file s @ xs"
      by auto
    with Cons.IH [of s1] Inr show ?thesis by auto
  qed
qed

lemma left_on_disk_header:
  "\<exists>rows. left_on_disk (aggregate old files) = header # rows"
  using process_files_output_prefix [of "\<lparr>read = 0, written = 0, output_file = [header]\<rparr>" files]
  by (auto simp: left_on_disk_def aggregate_def open_w_def Let_def split: sum.splits)

lemma aggregate_ok:
  "well_formed files \<Longrightarrow>
   aggregate old files =
     Inr (after_rows \<lparr>read = 0, written = 0, output_file = [header]\<rparr> (data_rows files),
          counters (after_rows \<lparr>read = 0, written = 0, output_file = [header]\<rparr> (data_rows files)))"
  by (simp add: aggregate_def open_w_def process_files_ok Let_def)

text \<open>The run finishes exactly on the well-formed inputs.\<close>

lemma aggregate_finishes_iff:
  "(\<exists>r. aggregate old files = Inr r) \<longleftrightarrow> well_formed files"
proof
  assume "\<exists>r. aggregate old files = Inr r"
  then obtain s where "process_files \<lparr>read = 0, written = 0, output_file = [header]\<rparr> files = Inr s"
    by (auto simp: aggregate_def open_w_def Let_def split: sum.splits)
  then show "well_formed files"
    by (rule process_files_Inr_well_formed)
next
  assume "well_formed files"
  then have "aggregate old files =
     Inr (after_rows \<lparr>read = 0, written = 0, output_file = [header]\<rparr> (data_rows files),
          counters (after_rows \<lparr>read = 0, written = 0, output_file = [header]\<rparr> (data_rows files)))"
    by (rule aggregate_ok)
  then show "\<exists>r. aggregate old files = Inr r" ..
qed

lemma aggregate_old: "aggregate old files = aggregate old' files"
  by (simp add: aggregate_def open_w_def)

lemma length_filter_not: "int (length xs) - int (length (filter P xs)) = int (length (filter (\<lambda>x. \<not> P x) xs))"
  using sum_length_filter_compl [of P xs] by simp

text \<open>
  C2 (amended). On every input on which the run finishes, that is where every file has a
  first line, every data row has a field at index 10 and every row whose field 10 is
  \<open>NextSong\<close> has the seventeen positions, the number of data rows of the aggregate file
  (its rows but the header) is the number of input data rows, over all files, whose
  field 10 is exactly \<open>NextSong\<close>; every other row is dropped without a trace; and the
  counters printed are read = all data rows, written = the qualifying rows, and
  discarded = read - written = the rows that do not qualify.
\<close>
theorem aggregate_counts:
  assumes "well_formed files"
  shows "\<exists>s. aggregate old files = Inr (s, (read s, written s, read s - written s))
           \<and> length (tl (output_file s)) = length (filter qualifies (data_rows files))
           \<and> read s = int (length (data_rows files))
           \<and> written s = int (length (filter qualifies (data_rows files)))
           \<and> read s - written s = int (length (filter (\<lambda>r. \<not> qualifies r) (data_rows files)))"
  using aggregate_ok [OF assms, of old] length_filter_not [of "data_rows files" qualifies]
  by (simp add: counters_def after_rows_def)

theorem aggregate_counts_witness:
  "well_formed [[raw_header, song_row, login_row, short_login], [raw_header, song_row]]
   \<and> (\<exists>s. aggregate [] [[raw_header, song_row, login_row, short_login], [raw_header, song_row]]
              = Inr (s, (4, 2, 2))
          \<and> length (tl (output_file s)) = 2)"
proof -
  let ?F = "[[raw_header, song_row, login_row, short_login], [raw_header, song_row]]"
  have fatal: "\<not> fatal_row song_row" "\<not> fatal_row login_row" "\<not> fatal_row short_login"
    by (simp_all add: fatal_row_def song_row_def login_row_def short_login_def)
  have q: "qualifies song_row" "\<not> qualifies login_row" "\<not> qualifies short_login"
    by (simp_all add: qualifies_def song_row_def login_row_def short_login_def)
  have wf: "well_formed ?F"
    by (simp add: well_formed_def fatal)
  have d: "data_rows ?F = [song_row, login_row, short_login, song_row]"
    by (simp add: data_rows_def)
  from aggregate_counts [OF wf, of "[]"] show ?thesis
    unfolding d using wf q by auto
qed

text \<open>
  The count does not hold on every input: one file holding a header and an
  eleven-field row whose field 10 is \<open>NextSong\<close> has one qualifying row, yet the run is
  aborted by the IndexError of \<^verbatim>\<open>row[12]\<close>, the aggregate file holds the header alone and
  no counter is printed.
\<close>
theorem aggregate_counts_counterexample:
  "length (filter qualifies (data_rows [[raw_header, short_song]])) = 1
   \<and> length (tl (left_on_disk (aggregate [] [[raw_header, short_song]]))) = 0
   \<and> aggregate [] [[raw_header, short_song]]
       = Inl (IndexError, \<lparr>read = 1, written = 0, output_file = [header]\<rparr>)"
proof -
  have f: "fatal_row short_song"
    by (simp add: fatal_row_def short_song_def)
  have q: "qualifies short_song"
    by (simp add: qualifies_def short_song_def)
  have a: "aggregate [] [[raw_header, short_song]]
       = Inl (IndexError, \<lparr>read = 1, written = 0, output_file = [header]\<rparr>)"
    by (simp add: aggregate_def open_w_def process_file_def process_row_fatal [OF f] Let_def)
  show ?thesis
    by (simp add: a q data_rows_def left_on_disk_def)
qed


lemma decode_escaped:
  "decode In_field f r acc
     (concat (map (\<lambda>c. if c = dquote then [dquote, dquote] else [c]) g) @ dquote # rest) =
   decode Quote_seen (f @ g) r acc rest"
  by (induction g arbitrary: f) simp_all

lemma decode_field:
  "decode Field_start f r acc (quote_field g @ rest) = decode Quote_seen g r acc rest"
  using decode_escaped [of "[]" r acc g rest] by (simp add: quote_field_def)

lemma decode_first_field:
  "decode Row_start f r acc (quote_field g @ rest) = decode Quote_seen g [] acc rest"
  using decode_escaped [of "[]" "[]" acc g rest] by (simp add: quote_field_def)

lemma join_Cons:
  "join sep (x # xs) = x @ concat (map (\<lambda>y. sep @ y) xs)"
  by (induction xs arbitrary: x) simp_all

lemma decode_more_fields:
  "decode Quote_seen g r acc
     (concat (map (\<lambda>y. '','' @ y) (map quote_field gs)) @ CHR 0x0D # CHR 0x0A # rest) =
   decode Row_start [] [] (acc @ [r @ g # gs]) rest"
proof (induction gs arbitrary: g r)
  case Nil
  show ?case by (simp add: dquote_def)
next
  case (Cons h hs)
  have "decode Quote_seen g r acc
     (concat (map (\<lambda>y. '','' @ y) (map quote_field (h # hs))) @ CHR 0x0D # CHR 0x0A # rest) =
    decode Field_start [] (r @ [g]) acc
      (quote_field h @ (concat (map (\<lambda>y. '','' @ y) (map quote_field hs)) @ CHR 0x0D # CHR 0x0A # rest))"
    by (simp add: dquote_def)
  also have "\<dots> = decode Quote_seen h (r @ [g]) acc
      (concat (map (\<lambda>y. '','' @ y) (map quote_field hs)) @ CHR 0x0D # CHR 0x0A # rest)"
    by (rule decode_field)
  also have "\<dots> = decode Row_start [] [] (acc @ [(r @ [g]) @ h # hs]) rest"
    by (rule Cons.IH)
  finally show ?case by simp
qed

lemma decode_row:
  "decode Row_start f r acc (writerow fs @ rest) = decode Row_start [] [] (acc @ [fs]) rest"
proof (cases fs)
  case Nil
  then show ?thesis by (simp add: writerow_def dquote_def)
next
  case (Cons g gs)
  have "writerow (g # gs) @ rest =
     quote_field g @ (concat (map (\<lambda>y. '','' @ y) (map quote_field gs)) @ CHR 0x0D # CHR 0x0A # rest)"
    by (simp add: writerow_def join_Cons)
  then have "decode Row_start f r acc (writerow (g # gs) @ rest) =
     decode Quote_seen g [] acc
       (concat (map (\<lambda>y. '','' @ y) (map quote_field gs)) @ CHR 0x0D # CHR 0x0A # rest)"
    by (simp only: decode_first_field)
  also have "\<dots> = decode Row_start [] [] (acc @ [[] @ g # gs]) rest"
    by (rule decode_more_fields)
  finally show ?thesis using Cons by simp
qed

lemma decode_file:
  "decode Row_start [] [] acc (file_bytes rows) = Some (acc @ rows)"
proof (induction rows arbitrary: acc)
  case Nil
  show ?case by (simp add: file_bytes_def)
next
  case (Cons fs rows)
  have "file_bytes (fs # rows) = writerow fs @ file_bytes rows"
    by (simp add: file_bytes_def)
  then have "decode Row_start [] [] acc (file_bytes (fs # rows)) =
      decode Row_start [] [] (acc @ [fs]) (file_bytes rows)"
    by (simp only: decode_row)
  with Cons.IH [of "acc @ [fs]"] show ?case by simp
qed

lemma read_back_file_bytes: "read_back (file_bytes rows) = Some rows"
  by (simp add: read_back_def decode_file)

lemma quote_field_plain:
  "CHR 0x22 \<notin> set f \<Longrightarrow> quote_field f = CHR 0x22 # f @ [CHR 0x22]"
proof -
  assume "CHR 0x22 \<notin> set f"
  then have "concat (map (\<lambda>c. if c = dquote then [dquote, dquote] else [c]) f) = f"
    by (induction f) (auto simp add: dquote_def)
  then show ?thesis by (simp add: quote_field_def dquote_def)
qed


text \<open>
  C5. A row with the seventeen positions whose field 10 is \<open>NextSong\<close> makes the loop body
  write exactly one row, made of its fields at offsets 0, 2, 4, 5, 6, 12, 13, 16 in this
  order. The aggregate file starts with the header artist_name, user_first_name,
  item_in_session, user_last_name, song_length, session_id, song_title, user_id, and
  after a run that finishes the rows below it are the projections of the qualifying
  rows in input order. In the bytes written every field stands between double quotes
  and nothing is lost: a reader that refuses any field not between double quotes reads
  back, from the bytes of any rows, exactly these rows, and a field without a double
  quote is written as itself between two double quotes. What the file held before the
  run has no influence on what it holds after.
\<close>

theorem aggregate_projection:
  "(17 \<le> length r \<and> r ! 10 = ''NextSong'' \<longrightarrow>
      process_row s r =
        Inr (s\<lparr>read := read s + 1,
               output_file := output_file s @ [[r ! 0, r ! 2, r ! 4, r ! 5, r ! 6, r ! 12, r ! 13, r ! 16]],
               written := written s + 1\<rparr>))
   \<and> (\<exists>rows. left_on_disk (aggregate old files) =
         [''artist_name'', ''user_first_name'', ''item_in_session'', ''user_last_name'',
          ''song_length'', ''session_id'', ''song_title'', ''user_id''] # rows)
   \<and> (well_formed files \<longrightarrow>
        tl (left_on_disk (aggregate old files)) = map project (filter qualifies (data_rows files)))
   \<and> read_back (file_bytes rows) = Some rows
   \<and> read_back (file_bytes (left_on_disk (aggregate old files))) =
        Some (left_on_disk (aggregate old files))
   \<and> (CHR 0x22 \<notin> set f \<longrightarrow> quote_field f = CHR 0x22 # f @ [CHR 0x22])
   \<and> left_on_disk (aggregate old files) = left_on_disk (aggregate [] files)"
proof -
  have a: "17 \<le> length r \<and> r ! 10 = ''NextSong'' \<longrightarrow>
      process_row s r =
        Inr (s\<lparr>read := read s + 1,
               output_file := output_file s @ [[r ! 0, r ! 2, r ! 4, r ! 5, r ! 6, r ! 12, r ! 13, r ! 16]],
               written := written s + 1\<rparr>)"
    using process_row_song [of r s] by (simp add: project_def)
  have b: "\<exists>rows. left_on_disk (aggregate old files) =
         [''artist_name'', ''user_first_name'', ''item_in_session'', ''user_last_name'',
          ''song_length'', ''session_id'', ''song_title'', ''user_id''] # rows"
    using left_on_disk_header [of old files] by (simp add: header_def)
  have c: "well_formed files \<longrightarrow>
        tl (left_on_disk (aggregate old files)) = map project (filter qualifies (data_rows files))"
    by (simp add: aggregate_ok left_on_disk_def after_rows_def)
  have d: "read_back (file_bytes rows) = Some rows"
    by (rule read_back_file_bytes)
  have d': "read_back (file_bytes (left_on_disk (aggregate old files))) =
        Some (left_on_disk (aggregate old files))"
    by (rule read_back_file_bytes)
  have e: "CHR 0x22 \<notin> set f \<longrightarrow> quote_field f = CHR 0x22 # f @ [CHR 0x22]"
    using quote_field_plain [of f] by blast
  have g: "left_on_disk (aggregate old files) = left_on_disk (aggregate [] files)"
    using aggregate_old [of old files "[]"] by simp
  from a b c d d' e g show ?thesis by (intro conjI)
qed

theorem aggregate_projection_witness:
  "17 \<le> length song_row \<and> song_row ! 10 = ''NextSong''
   \<and> process_row \<lparr>read = 0, written = 0, output_file = [header]\<rparr> song_row =
        Inr \<lparr>read = 1, written = 1,
             output_file = [header, [''Muse'', ''Ann'', ''4'', ''Lee'', ''304.8'', ''338'', ''Uprising'', ''10'']]\<rparr>
   \<and> well_formed [[raw_header, song_row, login_row]]
   \<and> left_on_disk (aggregate [[''stale'']] [[raw_header, song_row, login_row]]) =
        [header, [''Muse'', ''Ann'', ''4'', ''Lee'', ''304.8'', ''338'', ''Uprising'', ''10'']]
   \<and> read_back (file_bytes (left_on_disk (aggregate [[''stale'']] [[raw_header, song_row, login_row]]))) =
        Some [header, [''Muse'', ''Ann'', ''4'', ''Lee'', ''304.8'', ''338'', ''Uprising'', ''10'']]
   \<and> CHR 0x22 \<notin> set ''Muse''
   \<and> quote_field ''Muse'' = [CHR 0x22, CHR ''M'', CHR ''u'', CHR ''s'', CHR ''e'', CHR 0x22]
   \<and> file_bytes [[''ab'', ''c'']] =
        [CHR 0x22, CHR ''a'', CHR ''b'', CHR 0x22, CHR '','', CHR 0x22, CHR ''c'', CHR 0x22,
         CHR 0x0D, CHR 0x0A]
   \<and> writerow [[CHR ''a'', CHR 0x22, CHR ''b'']] =
        [CHR 0x22, CHR ''a'', CHR 0x22, CHR 0x22, CHR ''b'', CHR 0x22, CHR 0x0D, CHR 0x0A]"
proof -
  let ?s = "\<lparr>read = 0, written = 0, output_file = [header]\<rparr>"
  let ?F = "[[raw_header, song_row, login_row]]"
  have len: "17 \<le> length song_row \<and> song_row ! 10 = ''NextSong''"
    by (simp add: song_row_def)
  have wf: "well_formed ?F"
    by (simp add: well_formed_def fatal_row_def song_row_def login_row_def)
  have q: "qualifies song_row" "\<not> qualifies login_row"
    by (simp_all add: qualifies_def song_row_def login_row_def)
  have p: "project song_row = [''Muse'', ''Ann'', ''4'', ''Lee'', ''304.8'', ''338'', ''Uprising'', ''10'']"
    by (simp add: project_def song_row_def)
  have m: "CHR 0x22 \<notin> set ''Muse''" by simp
  note t = aggregate_projection [of song_row ?s "[[''stale'']]" ?F "[]" "''Muse''"]
  from t len have 1: "process_row ?s song_row =
        Inr \<lparr>read = 1, written = 1,
             output_file = [header, [''Muse'', ''Ann'', ''4'', ''Lee'', ''304.8'', ''338'', ''Uprising'', ''10'']]\<rparr>"
    by (simp add: song_row_def)
  from t obtain rows where h: "left_on_disk (aggregate [[''stale'']] ?F) = header # rows"
    unfolding header_def by blast
  from t wf have "tl (left_on_disk (aggregate [[''stale'']] ?F)) = map project (filter qualifies (data_rows ?F))"
    by blast
  with h have 2: "left_on_disk (aggregate [[''stale'']] ?F) =
        [header, [''Muse'', ''Ann'', ''4'', ''Lee'', ''304.8'', ''338'', ''Uprising'', ''10'']]"
    by (simp add: data_rows_def q p)
  from t have "read_back (file_bytes (left_on_disk (aggregate [[''stale'']] ?F))) =
        Some (left_on_disk (aggregate [[''stale'']] ?F))"
    by blast
  then have 3: "read_back (file_bytes (left_on_disk (aggregate [[''stale'']] ?F))) =
        Some [header, [''Muse'', ''Ann'', ''4'', ''Lee'', ''304.8'', ''338'', ''Uprising'', ''10'']]"
    by (simp only: 2)
  from t m have 4: "quote_field ''Muse'' = [CHR 0x22, CHR ''M'', CHR ''u'', CHR ''s'', CHR ''e'', CHR 0x22]"
    by simp
  have 5: "file_bytes [[''ab'', ''c'']] =
        [CHR 0x22, CHR ''a'', CHR ''b'', CHR 0x22, CHR '','', CHR 0x22, CHR ''c'', CHR 0x22,
         CHR 0x0D, CHR 0x0A]"
    by (simp add: file_bytes_def writerow_def quote_field_def dquote_def)
  have 6: "writerow [[CHR ''a'', CHR 0x22, CHR ''b'']] =
        [CHR 0x22, CHR ''a'', CHR 0x22, CHR 0x22, CHR ''b'', CHR 0x22, CHR 0x0D, CHR 0x0A]"
    by (simp add: writerow_def quote_field_def dquote_def)
  from len 1 wf 2 3 m 4 5 6 show ?thesis by (intro conjI) simp_all
qed

text \<open>
  C6 (amended). A data row that has no field at index 10, or whose field 10 is \<open>NextSong\<close>
  and that has fewer than seventeen fields, raises an IndexError that ends the run when
  the loop reaches it: the result is the exception, with the state made of the rows
  before it and the read counter one higher, whatever rows and files come after it.
\<close>
theorem malformed_row_aborts:
  assumes "well_formed (before @ [h # pre])"
    and "length bad \<le> 10 \<or> (bad ! 10 = ''NextSong'' \<and> length bad < 17)"
  shows "aggregate old (before @ (h # pre @ bad # post) # later) =
           Inl (IndexError,
                \<lparr>read = int (length (data_rows before @ pre)) + 1,
                 written = int (length (filter qualifies (data_rows before @ pre))),
                 output_file = header # map project (filter qualifies (data_rows before @ pre))\<rparr>)"
proof -
  let ?s0 = "\<lparr>read = 0, written = 0, output_file = [header]\<rparr>"
  from assms(1) have wb: "well_formed before" and wp: "\<forall>r \<in> set pre. \<not> fatal_row r"
    by (simp_all add: well_formed_def)
  from assms(2) have f: "fatal_row bad" by (simp add: fatal_row_def)
  let ?s1 = "after_rows ?s0 (data_rows before)"
  let ?s2 = "after_rows ?s1 pre"
  have rows: "process_rows ?s1 (pre @ bad # post) = Inl (IndexError, ?s2\<lparr>read := read ?s2 + 1\<rparr>)"
    by (simp add: process_rows_append process_rows_ok [OF wp] process_row_fatal [OF f])
  have "process_files ?s0 (before @ (h # pre @ bad # post) # later) =
          Inl (IndexError, ?s2\<lparr>read := read ?s2 + 1\<rparr>)"
    by (simp add: process_files_append process_files_ok [OF wb] process_file_def rows)
  then show ?thesis
    by (simp add: aggregate_def open_w_def Let_def after_rows_def)
qed

theorem malformed_row_aborts_witness:
  "well_formed ([[raw_header, song_row]] @ [raw_header # [login_row]])
   \<and> length tiny_row \<le> 10
   \<and> aggregate [] ([[raw_header, song_row]] @ (raw_header # [login_row] @ tiny_row # [song_row]) # [[raw_header, song_row]]) =
       Inl (IndexError, \<lparr>read = 3, written = 1, output_file = [header, project song_row]\<rparr>)"
proof -
  have wf: "well_formed ([[raw_header, song_row]] @ [raw_header # [login_row]])"
    by (simp add: well_formed_def fatal_row_def song_row_def login_row_def)
  have b: "length tiny_row \<le> 10 \<or> (tiny_row ! 10 = ''NextSong'' \<and> length tiny_row < 17)"
    by (simp add: tiny_row_def)
  have q: "qualifies song_row" "\<not> qualifies login_row"
    by (simp_all add: qualifies_def song_row_def login_row_def)
  from malformed_row_aborts [OF wf b, of "[]" "[song_row]" "[[raw_header, song_row]]"] wf
  show ?thesis
    by (simp add: data_rows_def q) (simp add: tiny_row_def)
qed


text \<open>
  Not every row with fewer fields than the highest position referenced ends the run:
  an eleven-field row whose field 10 is \<open>Login\<close> is dropped, the row after it is
  processed and the run finishes.
\<close>
theorem malformed_row_counterexample:
  "length short_login < 17
   \<and> aggregate [] [[raw_header, short_login, song_row]] =
       Inr (\<lparr>read = 2, written = 1, output_file = [header, project song_row]\<rparr>, (2, 1, 1))"
proof -
  have wf: "well_formed [[raw_header, short_login, song_row]]"
    by (simp add: well_formed_def fatal_row_def song_row_def short_login_def)
  have q: "qualifies song_row" "\<not> qualifies short_login"
    by (simp_all add: qualifies_def song_row_def short_login_def)
  show ?thesis
    by (simp add: aggregate_ok [OF wf] after_rows_def data_rows_def q counters_def)
      (simp add: short_login_def)
qed

text \<open>
  C8. A second run over the same files in the same discovery order, started on the file
  the first run left, leaves a file with the same bytes, whether the runs finish or are
  aborted.
\<close>
theorem aggregate_rerun_identical:
  "file_bytes (left_on_disk (aggregate (left_on_disk (aggregate old files)) files)) =
     file_bytes (left_on_disk (aggregate old files))"
  using aggregate_old [of "left_on_disk (aggregate old files)" files old] by simp


text \<open>
  C9. A row with at least 11 and fewer than 17 fields whose field 10 is not \<open>NextSong\<close>
  only increments the read counter, and the loop goes on with the next row. The loop
  body raises only an IndexError, and only when index 10 is out of range or, the field
  10 being \<open>NextSong\<close>, one of the indices 0, 2, 4, 5, 6, 12, 13, 16 is.
\<close>
theorem short_other_row_discarded:
  "(11 \<le> length r \<and> length r < 17 \<and> r ! 10 \<noteq> ''NextSong'' \<longrightarrow>
      process_row s r = Inr (s\<lparr>read := read s + 1\<rparr>)
      \<and> process_rows s (r # rest) = process_rows (s\<lparr>read := read s + 1\<rparr>) rest)
   \<and> (process_row s r = Inl (e, s') \<longrightarrow>
        e = IndexError
        \<and> (\<not> 10 < length r \<or> (r ! 10 = ''NextSong'' \<and> (\<exists>i \<in> set [0, 2, 4, 5, 6, 12, 13, 16]. \<not> i < length r))))"
proof -
  have a: "11 \<le> length r \<and> length r < 17 \<and> r ! 10 \<noteq> ''NextSong'' \<longrightarrow>
      process_row s r = Inr (s\<lparr>read := read s + 1\<rparr>)
      \<and> process_rows s (r # rest) = process_rows (s\<lparr>read := read s + 1\<rparr>) rest"
    using process_row_other [of r s] by simp
  have b: "process_row s r = Inl (e, s') \<longrightarrow>
        e = IndexError
        \<and> (\<not> 10 < length r \<or> (r ! 10 = ''NextSong'' \<and> (\<exists>i \<in> set [0, 2, 4, 5, 6, 12, 13, 16]. \<not> i < length r)))"
  proof (cases "fatal_row r")
    case True
    then show ?thesis
      by (auto simp add: process_row_fatal fatal_row_def)
  next
    case False
    then show ?thesis by (simp add: process_row_not_fatal)
  qed
  from a b show ?thesis by blast
qed

theorem short_other_row_discarded_witness:
  "11 \<le> length short_login \<and> length short_login < 17 \<and> short_login ! 10 \<noteq> ''NextSong''
   \<and> process_row \<lparr>read = 0, written = 0, output_file = [header]\<rparr> short_login =
       Inr \<lparr>read = 1, written = 0, output_file = [header]\<rparr>
   \<and> process_rows \<lparr>read = 0, written = 0, output_file = [header]\<rparr> [short_login, song_row] =
       Inr \<lparr>read = 2, written = 1, output_file = [header, project song_row]\<rparr>
   \<and> process_row \<lparr>read = 0, written = 0, output_file = [header]\<rparr> short_song =
       Inl (IndexError, \<lparr>read = 1, written = 0, output_file = [header]\<rparr>)
   \<and> short_song ! 10 = ''NextSong'' \<and> \<not> 12 < length short_song"
proof -
  let ?s = "\<lparr>read = 0, written = 0, output_file = [header]\<rparr>"
  have h: "11 \<le> length short_login \<and> length short_login < 17 \<and> short_login ! 10 \<noteq> ''NextSong''"
    by (simp add: short_login_def)
  have song: "process_row (?s\<lparr>read := read ?s + 1\<rparr>) song_row =
                Inr \<lparr>read = 2, written = 1, output_file = [header, project song_row]\<rparr>"
    by (simp add: process_row_song song_row_def)
  have bad: "process_row ?s short_song = Inl (IndexError, \<lparr>read = 1, written = 0, output_file = [header]\<rparr>)"
    by (simp add: process_row_fatal fatal_row_def short_song_def)
  from short_other_row_discarded [of short_login ?s "[song_row]"] h
  have 1: "process_row ?s short_login = Inr \<lparr>read = 1, written = 0, output_file = [header]\<rparr>"
    and 2: "process_rows ?s [short_login, song_row] = process_rows (?s\<lparr>read := read ?s + 1\<rparr>) [song_row]"
    by simp_all
  from 2 song have 3: "process_rows ?s [short_login, song_row] =
       Inr \<lparr>read = 2, written = 1, output_file = [header, project song_row]\<rparr>"
    by simp
  have 4: "short_song ! 10 = ''NextSong'' \<and> \<not> 12 < length short_song"
    by (simp add: short_song_def)
  from h 1 3 bad 4 show ?thesis by blast
qed


text \<open>
  C10. A file with no line at all raises StopIteration at the header skip. When the
  files before it went through, the run ends there with the state those files left:
  no row of a later file is read.
\<close>
theorem empty_file_aborts:
  "process_file s [] = Inl (StopIteration, s)
   \<and> (process_files s0 before = Inr s1 \<longrightarrow>
        process_files s0 (before @ [] # later) = Inl (StopIteration, s1))
   \<and> (well_formed before \<longrightarrow>
        aggregate old (before @ [] # later) =
          Inl (StopIteration,
               \<lparr>read = int (length (data_rows before)),
                written = int (length (filter qualifies (data_rows before))),
                output_file = header # map project (filter qualifies (data_rows before))\<rparr>))"
proof -
  have a: "process_file s [] = Inl (StopIteration, s)"
    by (simp add: process_file_def)
  have b: "process_files s0 before = Inr s1 \<longrightarrow>
        process_files s0 (before @ [] # later) = Inl (StopIteration, s1)"
    by (simp add: process_files_append process_file_def)
  have c: "well_formed before \<longrightarrow>
        aggregate old (before @ [] # later) =
          Inl (StopIteration,
               \<lparr>read = int (length (data_rows before)),
                written = int (length (filter qualifies (data_rows before))),
                output_file = header # map project (filter qualifies (data_rows before))\<rparr>)"
    by (simp add: aggregate_def open_w_def Let_def process_files_append process_files_ok
          process_file_def after_rows_def)
  from a b c show ?thesis by blast
qed

theorem empty_file_aborts_witness:
  "well_formed [[raw_header, song_row]]
   \<and> aggregate [] ([[raw_header, song_row]] @ [] # [[raw_header, song_row]]) =
       Inl (StopIteration, \<lparr>read = 1, written = 1, output_file = [header, project song_row]\<rparr>)
   \<and> aggregate [] ([] @ [] # [[raw_header, song_row]]) =
       Inl (StopIteration, \<lparr>read = 0, written = 0, output_file = [header]\<rparr>)"
proof -
  let ?s0 = "\<lparr>read = 0, written = 0, output_file = [header]\<rparr>"
  have wf: "well_formed [[raw_header, song_row]]"
    by (simp add: well_formed_def fatal_row_def song_row_def)
  have wf0: "well_formed []"
    by (simp add: well_formed_def)
  have q: "qualifies song_row"
    by (simp add: qualifies_def song_row_def)
  from empty_file_aborts [where before = "[[raw_header, song_row]]" and old = "[]"
      and later = "[[raw_header, song_row]]"] wf
  have 1: "aggregate [] ([[raw_header, song_row]] @ [] # [[raw_header, song_row]]) =
       Inl (StopIteration, \<lparr>read = 1, written = 1, output_file = [header, project song_row]\<rparr>)"
    by (simp add: data_rows_def q)
  from empty_file_aborts [where before = "[]" and old = "[]" and later = "[[raw_header, song_row]]"] wf0
  have 2: "aggregate [] ([] @ [] # [[raw_header, song_row]]) =
       Inl (StopIteration, \<lparr>read = 0, written = 0, output_file = [header]\<rparr>)"
    by (simp add: data_rows_def)
  from wf 1 2 show ?thesis by blast
qed

section \<open>Facts about the batch loader\<close>

lemma batch_add_ok:
  "bind (fst s) (snd s) = None \<Longrightarrow> length b < MAX_STATEMENTS \<Longrightarrow> batch_add bind b s = Inr (b @ [s])"
  by (simp add: batch_add_def)


lemma batch_add_bind:
  "bind (fst s) (snd s) = Some m \<Longrightarrow> batch_add bind b s = Inl (Bind_raised m)"
  by (simp add: batch_add_def)

lemma batch_add_Inr:
  "batch_add bind b s = Inr b' \<Longrightarrow>
   b' = b @ [s] \<and> bind (fst s) (snd s) = None \<and> length b' \<le> MAX_STATEMENTS"
  by (auto simp add: batch_add_def split: option.splits if_splits)

lemma add_all_ok:
  "\<forall>s \<in> set ss. bind (fst s) (snd s) = None \<Longrightarrow> length b + length ss \<le> MAX_STATEMENTS \<Longrightarrow>
   add_all bind b ss = Inr (b @ ss)"
proof (induction ss arbitrary: b)
  case Nil
  show ?case by simp
next
  case (Cons s ss)
  from Cons.prems have "batch_add bind b s = Inr (b @ [s])"
    by (intro batch_add_ok) simp_all
  moreover from Cons.prems have "add_all bind (b @ [s]) ss = Inr ((b @ [s]) @ ss)"
    by (intro Cons.IH) simp_all
  ultimately show ?case by simp
qed

lemma add_all_Inr:
  "add_all bind b ss = Inr b' \<Longrightarrow>
   b' = b @ ss \<and> (\<forall>s \<in> set ss. bind (fst s) (snd s) = None)
   \<and> (ss \<noteq> [] \<longrightarrow> length b' \<le> MAX_STATEMENTS)"
proof (induction ss arbitrary: b)
  case Nil
  then show ?case by simp
next
  case (Cons s ss)
  from Cons.prems obtain b1 where b1: "batch_add bind b s = Inr b1" and rest: "add_all bind b1 ss = Inr b'"
    by (auto split: sum.splits)
  note a = batch_add_Inr [OF b1]
  note i = Cons.IH [OF rest]
  show ?case
  proof (cases "ss = []")
    case True
    with a i rest show ?thesis by auto
  next
    case False
    with a i show ?thesis by auto
  qed
qed


lemma length_inserts_row: "length (inserts row) = 3"
  by (simp add: inserts_def)

lemma inserts_not_Nil: "inserts row \<noteq> []"
  by (simp add: inserts_def)

lemma add_row_ok:
  "binds bind row \<Longrightarrow> length (batch l) + 3 \<le> MAX_STATEMENTS \<Longrightarrow>
   add_row bind l row = Inr (l\<lparr>batch := batch l @ inserts row, records := records l + 3\<rparr>)"
  by (simp add: add_row_def binds_def add_all_ok length_inserts_row)


lemma add_row_unbound:
  "\<not> binds bind row \<Longrightarrow> \<exists>e l'. add_row bind l row = Inl (e, l') \<and> executed l' = executed l"
proof -
  assume "\<not> binds bind row"
  have "\<forall>b'. add_all bind (batch l) (inserts row) \<noteq> Inr b'"
  proof
    fix b'
    show "add_all bind (batch l) (inserts row) \<noteq> Inr b'"
    proof
      assume "add_all bind (batch l) (inserts row) = Inr b'"
      from add_all_Inr [OF this] \<open>\<not> binds bind row\<close> show False by (simp add: binds_def)
    qed
  qed
  then obtain e b where "add_all bind (batch l) (inserts row) = Inl (e, b)"
    by (cases "add_all bind (batch l) (inserts row)") auto
  then show ?thesis by (simp add: add_row_def)
qed

lemma add_row_Inr:
  "add_row bind l row = Inr l' \<Longrightarrow>
   l' = l\<lparr>batch := batch l @ inserts row, records := records l + 3\<rparr>
   \<and> binds bind row \<and> length (batch l') \<le> MAX_STATEMENTS"
proof -
  assume a: "add_row bind l row = Inr l'"
  then obtain b where b: "add_all bind (batch l) (inserts row) = Inr b"
    and l': "l' = l\<lparr>batch := b, records := records l + 3\<rparr>"
    by (auto simp add: add_row_def split: sum.splits)
  from add_all_Inr [OF b] inserts_not_Nil [of row] l' show ?thesis
    by (auto simp add: binds_def)
qed

lemma add_row_Inl_executed:
  "add_row bind l row = Inl (e, l') \<Longrightarrow> executed l' = executed l \<and> stdout l' = stdout l"
  by (auto simp add: add_row_def split: sum.splits)

text \<open>The state after the rows of a frame, when each could be added.\<close>

lemma add_rows_ok:
  "\<forall>row \<in> set df. binds bind row \<Longrightarrow> length (batch l) + 3 * length df \<le> MAX_STATEMENTS \<Longrightarrow>
   add_rows bind l df =
     Inr (l\<lparr>batch := batch l @ concat (map inserts df), records := records l + 3 * int (length df)\<rparr>)"
proof (induction df arbitrary: l)
  case Nil
  show ?case by simp
next
  case (Cons row df)
  let ?l1 = "l\<lparr>batch := batch l @ inserts row, records := records l + 3\<rparr>"
  from Cons.prems have 1: "add_row bind l row = Inr ?l1"
    by (intro add_row_ok) simp_all
  from Cons.prems have "add_rows bind ?l1 df =
     Inr (?l1\<lparr>batch := batch ?l1 @ concat (map inserts df), records := records ?l1 + 3 * int (length df)\<rparr>)"
    by (intro Cons.IH) (simp_all add: length_inserts_row)
  with 1 show ?case by simp
qed



lemma add_rows_Inl_executed:
  "add_rows bind l df = Inl (e, l') \<Longrightarrow> executed l' = executed l \<and> stdout l' = stdout l"
proof (induction df arbitrary: l)
  case Nil
  then show ?case by simp
next
  case (Cons row df)
  show ?case
  proof (cases "add_row bind l row")
    case (Inl x)
    with Cons.prems have "add_row bind l row = Inl (e, l')" by simp
    then show ?thesis by (rule add_row_Inl_executed)
  next
    case (Inr l1)
    with Cons.prems have "add_rows bind l1 df = Inl (e, l')" by simp
    from Cons.IH [OF this] add_row_Inr [OF Inr] show ?thesis by auto
  qed
qed


text \<open>The \<^verbatim>\<open>try\<close> statement, by the store's answer.\<close>

lemma submit_refused:
  "exec (session l) (batch l) = (Some e, st') \<Longrightarrow>
   submit exec l =
     l\<lparr>session := st', executed := executed l @ [(batch l, Some e)],
       stdout := stdout l @ [''Error while processing a batch statement'', e]\<rparr>"
  by (simp add: submit_def)

lemma submit_accepted:
  "exec (session l) (batch l) = (None, st') \<Longrightarrow>
   submit exec l =
     l\<lparr>session := st', executed := executed l @ [(batch l, None)], batch := [],
       batches := batches l + 1\<rparr>"
  by (simp add: submit_def)

lemma submit_records: "records (submit exec l) = records l"
  by (cases "exec (session l) (batch l)") (simp add: submit_def Let_def split: option.splits)


lemma trace_length: "length (trace exec st held ws) = length ws"
  by (induction ws arbitrary: st held) (simp_all split: prod.splits option.splits)

lemma trace_bound:
  "p \<in> set (trace exec st held ws) \<Longrightarrow> length (fst p) \<le> length held + 3 * length (concat ws)"
proof (induction ws arbitrary: st held)
  case Nil
  then show ?case by simp
next
  case (Cons df dfs)
  let ?b = "held @ concat (map inserts df)"
  have lb: "length ?b = length held + 3 * length df"
    by (simp add: length_concat comp_def length_inserts_row sum_list_triv mult.commute)
  obtain r st' where e: "exec st ?b = (r, st')" by (cases "exec st ?b")
  show ?case
  proof (cases r)
    case None
    with e Cons.prems have "p = (?b, None) \<or> p \<in> set (trace exec st' [] dfs)" by simp
    then show ?thesis
    proof
      assume "p = (?b, None)"
      with lb show ?thesis by simp
    next
      assume "p \<in> set (trace exec st' [] dfs)"
      from Cons.IH [OF this] show ?thesis by simp
    qed
  next
    case (Some m)
    with e Cons.prems have "p = (?b, Some m) \<or> p \<in> set (trace exec st' ?b dfs)" by simp
    then show ?thesis
    proof
      assume "p = (?b, Some m)"
      with lb show ?thesis by simp
    next
      assume "p \<in> set (trace exec st' ?b dfs)"
      from Cons.IH [OF this] lb show ?thesis by simp
    qed
  qed
qed


text \<open>The fields of the state after a list of frames, by the batches sent.\<close>

lemma after_frames_executed:
  "executed (after_frames exec l ws) = executed l @ trace exec (session l) (batch l) ws"
proof (induction ws arbitrary: l)
  case Nil
  show ?case by simp
next
  case (Cons df dfs)
  let ?l1 = "l\<lparr>batch := batch l @ concat (map inserts df), records := records l + 3 * int (length df)\<rparr>"
  obtain r st' where e: "exec (session l) (batch l @ concat (map inserts df)) = (r, st')"
    by (cases "exec (session l) (batch l @ concat (map inserts df))")
  then have e1: "exec (session ?l1) (batch ?l1) = (r, st')" by simp
  show ?case
  proof (cases r)
    case None
    with e1 have "submit exec ?l1 =
        ?l1\<lparr>session := st', executed := executed ?l1 @ [(batch ?l1, None)], batch := [],
            batches := batches ?l1 + 1\<rparr>"
      by (intro submit_accepted) simp
    with Cons.IH [of "submit exec ?l1"] e None show ?thesis by simp
  next
    case (Some m)
    with e1 have "submit exec ?l1 =
        ?l1\<lparr>session := st', executed := executed ?l1 @ [(batch ?l1, Some m)],
            stdout := stdout ?l1 @ [''Error while processing a batch statement'', m]\<rparr>"
      by (intro submit_refused) simp
    with Cons.IH [of "submit exec ?l1"] e Some show ?thesis by simp
  qed
qed

lemma after_frames_stdout:
  "stdout (after_frames exec l ws) = stdout l @ reports (trace exec (session l) (batch l) ws)"
proof (induction ws arbitrary: l)
  case Nil
  show ?case by (simp add: reports_def)
next
  case (Cons df dfs)
  let ?l1 = "l\<lparr>batch := batch l @ concat (map inserts df), records := records l + 3 * int (length df)\<rparr>"
  obtain r st' where e: "exec (session l) (batch l @ concat (map inserts df)) = (r, st')"
    by (cases "exec (session l) (batch l @ concat (map inserts df))")
  then have e1: "exec (session ?l1) (batch ?l1) = (r, st')" by simp
  show ?case
  proof (cases r)
    case None
    with e1 have "submit exec ?l1 =
        ?l1\<lparr>session := st', executed := executed ?l1 @ [(batch ?l1, None)], batch := [],
            batches := batches ?l1 + 1\<rparr>"
      by (intro submit_accepted) simp
    with Cons.IH [of "submit exec ?l1"] e None show ?thesis by (simp add: reports_def)
  next
    case (Some m)
    with e1 have "submit exec ?l1 =
        ?l1\<lparr>session := st', executed := executed ?l1 @ [(batch ?l1, Some m)],
            stdout := stdout ?l1 @ [''Error while processing a batch statement'', m]\<rparr>"
      by (intro submit_refused) simp
    with Cons.IH [of "submit exec ?l1"] e Some show ?thesis by (simp add: reports_def)
  qed
qed

lemma after_frames_batches:
  "batches (after_frames exec l ws) =
     batches l + int (length (filter (\<lambda>p. snd p = None) (trace exec (session l) (batch l) ws)))"
proof (induction ws arbitrary: l)
  case Nil
  show ?case by simp
next
  case (Cons df dfs)
  let ?l1 = "l\<lparr>batch := batch l @ concat (map inserts df), records := records l + 3 * int (length df)\<rparr>"
  obtain r st' where e: "exec (session l) (batch l @ concat (map inserts df)) = (r, st')"
    by (cases "exec (session l) (batch l @ concat (map inserts df))")
  then have e1: "exec (session ?l1) (batch ?l1) = (r, st')" by simp
  show ?case
  proof (cases r)
    case None
    with e1 have "submit exec ?l1 =
        ?l1\<lparr>session := st', executed := executed ?l1 @ [(batch ?l1, None)], batch := [],
            batches := batches ?l1 + 1\<rparr>"
      by (intro submit_accepted) simp
    with Cons.IH [of "submit exec ?l1"] e None show ?thesis by simp
  next
    case (Some m)
    with e1 have "submit exec ?l1 =
        ?l1\<lparr>session := st', executed := executed ?l1 @ [(batch ?l1, Some m)],
            stdout := stdout ?l1 @ [''Error while processing a batch statement'', m]\<rparr>"
      by (intro submit_refused) simp
    with Cons.IH [of "submit exec ?l1"] e Some show ?thesis by simp
  qed
qed

lemma after_frames_records:
  "records (after_frames exec l ws) = records l + 3 * int (length (concat ws))"
  by (induction ws arbitrary: l) (simp_all add: submit_records)

lemma frames_Nil: "frames n [] = []"
  by (simp add: frames.simps)

lemma frames_Cons:
  "0 < n \<Longrightarrow> xs \<noteq> [] \<Longrightarrow> frames n xs = take n xs # frames n (drop n xs)"
  by (subst frames.simps) simp

lemma frames_concat: "0 < n \<Longrightarrow> concat (frames n xs) = xs"
proof (induction n xs rule: frames.induct)
  case (1 n xs)
  then show ?case
    by (cases "xs = []") (simp_all add: frames_Nil frames_Cons)
qed

lemma ceil_div_step:
  fixes m n :: nat
  assumes "0 < n" and "0 < m"
  shows "(m + n - 1) div n = Suc ((m - 1) div n)"
proof -
  from assms have "m + n - 1 = (m - 1) + n" by arith
  then have "(m + n - 1) div n = ((m - 1) + n) div n" by (simp only:)
  also have "\<dots> = (m - 1) div n + 1"
    using assms(1) by (intro div_add_self2) simp
  finally show ?thesis by simp
qed

lemma frames_length: "0 < n \<Longrightarrow> length (frames n xs) = (length xs + n - 1) div n"
proof (induction n xs rule: frames.induct)
  case (1 n xs)
  show ?case
  proof (cases "xs = []")
    case True
    with "1.prems" show ?thesis by (simp add: frames_Nil)
  next
    case False
    then have pos: "0 < length xs" by simp
    from False "1.prems" "1.IH" have ih: "length (frames n (drop n xs)) = (length xs - n + n - 1) div n"
      by simp
    have step: "(length xs + n - 1) div n = Suc ((length xs - 1) div n)"
      using "1.prems" pos by (rule ceil_div_step)
    show ?thesis
    proof (cases "n \<le> length xs")
      case True
      then have "length xs - n + n - 1 = length xs - 1" by simp
      with False "1.prems" ih step show ?thesis by (simp add: frames_Cons)
    next
      case False
      then have lt: "length xs < n" by simp
      then have "(length xs - 1) div n = 0" by simp
      with lt \<open>xs \<noteq> []\<close> "1.prems" step show ?thesis
        by (simp add: frames_Cons frames_Nil)
    qed
  qed
qed


lemma read_csv_nonempty: "xs \<noteq> [] \<Longrightarrow> read_csv n xs = frames n xs"
  by (simp add: read_csv_def)

lemma read_csv_concat: "0 < n \<Longrightarrow> concat (read_csv n xs) = xs"
  by (simp add: read_csv_def frames_concat)

lemma read_csv_length:
  "0 < n \<Longrightarrow> length (read_csv n xs) = (if xs = [] then 1 else (length xs + n - 1) div n)"
  by (simp add: read_csv_def frames_length)

lemma frames_one_frame:
  assumes "xs \<noteq> []" and "length xs \<le> n"
  shows "frames n xs = [xs]"
proof -
  from assms have pos: "0 < n" by (cases xs) auto
  have "frames n xs = take n xs # frames n (drop n xs)"
    using pos assms(1) by (rule frames_Cons)
  also from assms(2) have "take n xs = xs" by simp
  also from assms(2) have "drop n xs = []" by simp
  finally show ?thesis by (simp only: frames_Nil)
qed

lemma frames_full_frame:
  assumes "0 < n" and "length xs = n"
  shows "frames n (xs @ ys) = xs # frames n ys"
proof -
  from assms have ne: "xs @ ys \<noteq> []" by auto
  have "frames n (xs @ ys) = take n (xs @ ys) # frames n (drop n (xs @ ys))"
    using assms(1) ne by (rule frames_Cons)
  also from assms(2) have "take n (xs @ ys) = xs" by simp
  also from assms(2) have "drop n (xs @ ys) = ys" by simp
  finally show ?thesis .
qed

lemma read_csv_two_frames:
  assumes "length w = 100"
  shows "read_csv CHUNK_SIZE (w @ [x]) = [w, [x]]"
proof -
  have "frames 100 (w @ [x]) = w # frames 100 [x]"
    using assms by (intro frames_full_frame) simp_all
  also have "frames 100 [x] = [[x]]"
    by (rule frames_one_frame) simp_all
  finally show ?thesis by (simp add: CHUNK_SIZE_def read_csv_def)
qed



text \<open>When no statement fails to be added, the frames go through.\<close>

lemma process_chunks_ok:
  "\<forall>df \<in> set ws. \<forall>row \<in> set df. binds bind row \<Longrightarrow>
   \<forall>p \<in> set (trace exec (session l) (batch l) ws). length (fst p) \<le> MAX_STATEMENTS \<Longrightarrow>
   process_chunks bind exec l ws = Inr (after_frames exec l ws)"
proof (induction ws arbitrary: l)
  case Nil
  show ?case by simp
next
  case (Cons df dfs)
  let ?b = "batch l @ concat (map inserts df)"
  let ?l1 = "l\<lparr>batch := ?b, records := records l + 3 * int (length df)\<rparr>"
  obtain r st' where e: "exec (session l) ?b = (r, st')" by (cases "exec (session l) ?b")
  have lb: "length ?b = length (batch l) + 3 * length df"
    by (simp add: length_concat comp_def length_inserts_row sum_list_triv mult.commute)
  from e have "(?b, r) \<in> set (trace exec (session l) (batch l) (df # dfs))"
    by (cases r) simp_all
  with Cons.prems(2) have "length ?b \<le> MAX_STATEMENTS" by fastforce
  with lb have fit: "length (batch l) + 3 * length df \<le> MAX_STATEMENTS" by simp
  from Cons.prems(1) have "\<forall>row \<in> set df. binds bind row" by simp
  from add_rows_ok [OF this fit] have a: "add_rows bind l df = Inr ?l1" .
  let ?l2 = "submit exec ?l1"
  have tr: "trace exec (session l) (batch l) (df # dfs) = (?b, r) # trace exec (session ?l2) (batch ?l2) dfs"
    using e by (cases r) (simp_all add: submit_def)
  from Cons.prems(2) have rest: "\<forall>p \<in> set (trace exec (session ?l2) (batch ?l2) dfs). length (fst p) \<le> MAX_STATEMENTS"
    unfolding tr by simp
  from Cons.prems(1) have "\<forall>df \<in> set dfs. \<forall>row \<in> set df. binds bind row" by simp
  from Cons.IH [OF this rest] a show ?case
    by (simp add: process_chunk_def)
qed



lemma read_csv_rows: "set (concat (read_csv CHUNK_SIZE rows)) = set rows"
  using read_csv_concat [of CHUNK_SIZE rows] by (simp add: CHUNK_SIZE_def)

text \<open>The run ends with its \<^verbatim>\<open>print\<close> exactly when no statement fails to be added.\<close>

lemma load_ok:
  assumes "adds_succeed bind exec st rows"
  shows "load bind exec st rows =
     Inr (after_frames exec
            \<lparr>batches = 0, records = 0, batch = [], session = st, executed = [], stdout = []\<rparr>
            (read_csv CHUNK_SIZE rows),
          (int (length (filter (\<lambda>p. snd p = None) (trace exec st [] (read_csv CHUNK_SIZE rows)))),
           3 * int (length rows)))"
proof -
  let ?init = "\<lparr>batches = 0, records = 0, batch = [], session = st, executed = [], stdout = []\<rparr>"
  let ?ws = "read_csv CHUNK_SIZE rows"
  from assms have b: "\<forall>row \<in> set rows. binds bind row"
    and t: "\<forall>p \<in> set (trace exec st [] ?ws). length (fst p) \<le> MAX_STATEMENTS"
    by (simp_all add: adds_succeed_def)
  from b read_csv_rows [of rows] have b': "\<forall>df \<in> set ?ws. \<forall>row \<in> set df. binds bind row"
    by auto
  from t have t': "\<forall>p \<in> set (trace exec (session ?init) (batch ?init) ?ws). length (fst p) \<le> MAX_STATEMENTS"
    by simp
  have c: "concat ?ws = rows"
    by (rule read_csv_concat) (simp add: CHUNK_SIZE_def)
  from process_chunks_ok [OF b' t'] show ?thesis
    by (simp add: load_def after_frames_batches after_frames_records c)
qed


text \<open>Sufficient conditions: few enough records, or a store that accepts every batch.\<close>

lemma adds_succeed_small:
  "\<forall>row \<in> set rows. binds bind row \<Longrightarrow> 3 * length rows \<le> MAX_STATEMENTS \<Longrightarrow>
   adds_succeed bind exec st rows"
proof -
  assume b: "\<forall>row \<in> set rows. binds bind row" and n: "3 * length rows \<le> MAX_STATEMENTS"
  have c: "concat (read_csv CHUNK_SIZE rows) = rows"
    by (rule read_csv_concat) (simp add: CHUNK_SIZE_def)
  have "\<forall>p \<in> set (trace exec st [] (read_csv CHUNK_SIZE rows)). length (fst p) \<le> MAX_STATEMENTS"
  proof
    fix p
    assume "p \<in> set (trace exec st [] (read_csv CHUNK_SIZE rows))"
    from trace_bound [OF this] c n show "length (fst p) \<le> MAX_STATEMENTS" by simp
  qed
  with b show ?thesis by (simp add: adds_succeed_def)
qed

lemma binds_ev: "binds typed_bind ev"
  by (simp add: binds_def inserts_def select_columns_def songs_by_session_columns_def
        songs_by_user_columns_def users_by_song_columns_def typed_bind_def column_types_def
        fits_def ev_def)

lemma not_binds_ev_no_title: "\<not> binds typed_bind ev_no_title"
  by (simp add: binds_def inserts_def select_columns_def songs_by_session_columns_def
        songs_by_user_columns_def users_by_song_columns_def typed_bind_def column_types_def
        fits_def ev_def ev_no_title_def)

lemma length_concat_inserts: "length (concat (map inserts df)) = 3 * length df"
  by (induction df) (simp_all add: length_inserts_row)





lemma trace_two_frames_first_refused:
  "trace fail_first 0 [] [w, [x]] =
     [(concat (map inserts w), Some ''unavailable''), (concat (map inserts w) @ inserts x, None)]"
  by (simp add: fail_first_def)

lemma adds_succeed_two_frames:
  assumes "length w = 100" and "\<forall>row \<in> set w. binds typed_bind row" and "binds typed_bind x"
  shows "adds_succeed typed_bind exec st (w @ [x])"
  using assms by (intro adds_succeed_small) (auto simp add: MAX_STATEMENTS_def)

text \<open>Two frames, the first of which the store refuses.\<close>

lemma first_batch_refused:
  assumes w: "length w = 100" and bw: "\<forall>row \<in> set w. binds typed_bind row" and bx: "binds typed_bind x"
  shows "load typed_bind fail_first 0 (w @ [x]) =
     Inr (after_frames fail_first
            \<lparr>batches = 0, records = 0, batch = [], session = 0, executed = [], stdout = []\<rparr>
            [w, [x]], (1, 303))"
    and "executed (after_frames fail_first
            \<lparr>batches = 0, records = 0, batch = [], session = 0, executed = [], stdout = []\<rparr>
            [w, [x]]) =
     [(concat (map inserts w), Some ''unavailable''), (concat (map inserts w) @ inserts x, None)]"
    and "stdout (after_frames fail_first
            \<lparr>batches = 0, records = 0, batch = [], session = 0, executed = [], stdout = []\<rparr>
            [w, [x]]) = [''Error while processing a batch statement'', ''unavailable'']"
proof -
  have r: "read_csv CHUNK_SIZE (w @ [x]) = [w, [x]]"
    using w by (rule read_csv_two_frames)
  from load_ok [OF adds_succeed_two_frames [OF w bw bx], of fail_first 0]
  show "load typed_bind fail_first 0 (w @ [x]) =
     Inr (after_frames fail_first
            \<lparr>batches = 0, records = 0, batch = [], session = 0, executed = [], stdout = []\<rparr>
            [w, [x]], (1, 303))"
    unfolding r trace_two_frames_first_refused using w by simp
  show "executed (after_frames fail_first
            \<lparr>batches = 0, records = 0, batch = [], session = 0, executed = [], stdout = []\<rparr>
            [w, [x]]) =
     [(concat (map inserts w), Some ''unavailable''), (concat (map inserts w) @ inserts x, None)]"
    by (simp only: after_frames_executed loader.simps append_Nil trace_two_frames_first_refused)
  show "stdout (after_frames fail_first
            \<lparr>batches = 0, records = 0, batch = [], session = 0, executed = [], stdout = []\<rparr>
            [w, [x]]) = [''Error while processing a batch statement'', ''unavailable'']"
    by (simp only: after_frames_stdout loader.simps append_Nil trace_two_frames_first_refused)
      (simp add: reports_def)
qed

text \<open>
  C1 (the code at a failing input). With 101 records and a store that refuses the first
  batch, the first batch executed holds the 300 inserts of the first frame and the
  second holds 303 statements: the same 300, kept because the batch is cleared only in
  the \<^verbatim>\<open>else\<close> branch, followed by the 3 inserts of the second frame.
\<close>
theorem failed_batch_resubmitted:
  "map (\<lambda>p. (length (fst p), snd p))
     (executed (state_of (load typed_bind fail_first 0 (replicate 100 ev @ [ev])))) =
     [(300, Some ''unavailable''), (303, None)]
   \<and> fst (executed (state_of (load typed_bind fail_first 0 (replicate 100 ev @ [ev]))) ! 1) =
       concat (map inserts (replicate 100 ev)) @ inserts ev
   \<and> printed_by (load typed_bind fail_first 0 (replicate 100 ev @ [ev])) = Some (1, 303)"
proof -
  let ?w = "replicate 100 ev"
  have w: "length ?w = 100" by (simp only: length_replicate)
  have bw: "\<forall>row \<in> set ?w. binds typed_bind row" by (simp add: binds_ev)
  note f = first_batch_refused [OF w bw binds_ev]
  have n: "length (concat (map inserts ?w)) = 300"
    by (simp only: length_concat_inserts w)
  have 1: "map (\<lambda>p. (length (fst p), snd p))
     (executed (state_of (load typed_bind fail_first 0 (?w @ [ev])))) =
     [(300, Some ''unavailable''), (303, None)]"
    by (simp only: f state_of_def sum.case prod.case list.map fst_conv snd_conv length_append n
          length_inserts_row) simp
  have 2: "fst (executed (state_of (load typed_bind fail_first 0 (?w @ [ev]))) ! 1) =
       concat (map inserts ?w) @ inserts ev"
    by (simp only: f state_of_def sum.case prod.case) simp
  have 3: "printed_by (load typed_bind fail_first 0 (?w @ [ev])) = Some (1, 303)"
    by (simp only: f printed_by_def sum.case prod.case)
  from 1 2 3 show ?thesis by (intro conjI)
qed

lemma read_csv_single: "read_csv CHUNK_SIZE [x] = [[x]]"
  unfolding CHUNK_SIZE_def read_csv_def by (simp add: frames_one_frame)

lemma read_csv_empty: "read_csv CHUNK_SIZE [] = [[]]"
  by (simp add: read_csv_def)

text \<open>
  C3 (amended). For a consolidated file of N records and a store such that no
  \<^verbatim>\<open>batch.add\<close> raises (every value binds to its column and no batch has to hold more
  than 65535 statements), the cell runs to its \<^verbatim>\<open>print\<close>; it executes exactly
  ceil(N / 100) batches when N is at least 1 and one, empty, batch when N is 0; it
  prints a record count of exactly 3 N, however many batches the store refuses; and
  the batch count it prints is the number of executed batches the store accepted. The
  batches executed are those of \<open>trace\<close>.
\<close>
theorem loader_metrics:
  assumes "adds_succeed bind exec st rows"
  shows "\<exists>l. load bind exec st rows =
            Inr (l, (int (length (filter (\<lambda>p. snd p = None) (executed l))), 3 * int (length rows)))
          \<and> executed l = trace exec st [] (read_csv CHUNK_SIZE rows)
          \<and> length (executed l) = (if rows = [] then 1 else (length rows + 99) div 100)"
proof -
  let ?init = "\<lparr>batches = 0, records = 0, batch = [], session = st, executed = [], stdout = []\<rparr>"
  let ?ws = "read_csv CHUNK_SIZE rows"
  let ?l = "after_frames exec ?init ?ws"
  have e: "executed ?l = trace exec st [] ?ws"
    by (simp add: after_frames_executed)
  have n: "length ?ws = (if rows = [] then 1 else (length rows + 99) div 100)"
    using read_csv_length [of 100 rows] by (simp add: CHUNK_SIZE_def add.commute)
  have a: "load bind exec st rows =
            Inr (?l, (int (length (filter (\<lambda>p. snd p = None) (executed ?l))), 3 * int (length rows)))"
    unfolding e using assms by (rule load_ok)
  have c: "length (executed ?l) = (if rows = [] then 1 else (length rows + 99) div 100)"
    unfolding e trace_length by (rule n)
  show ?thesis
    by (intro exI [of _ ?l] conjI) (rule a, rule e, rule c)
qed

theorem loader_metrics_witness:
  "adds_succeed typed_bind always_fail 0 [ev]
   \<and> printed_by (load typed_bind always_fail 0 [ev]) = Some (0, 3)
   \<and> executed (state_of (load typed_bind always_fail 0 [ev])) =
       [([(songs_by_session_insert_query,
           [Int_cell 338, Int_cell 4, Str_cell ''Muse'', Str_cell ''Uprising'', Float_cell ''304.8'']),
          (songs_by_user_insert_query,
           [Int_cell 10, Int_cell 338, Int_cell 4, Str_cell ''Muse'', Str_cell ''Uprising'',
            Str_cell ''Ann'', Str_cell ''Lee'']),
          (users_by_song_insert_query,
           [Str_cell ''Uprising'', Int_cell 10, Str_cell ''Ann'', Str_cell ''Lee''])],
         Some ''unavailable'')]"
proof -
  have i: "inserts ev =
       [(songs_by_session_insert_query,
           [Int_cell 338, Int_cell 4, Str_cell ''Muse'', Str_cell ''Uprising'', Float_cell ''304.8'']),
          (songs_by_user_insert_query,
           [Int_cell 10, Int_cell 338, Int_cell 4, Str_cell ''Muse'', Str_cell ''Uprising'',
            Str_cell ''Ann'', Str_cell ''Lee'']),
          (users_by_song_insert_query,
           [Str_cell ''Uprising'', Int_cell 10, Str_cell ''Ann'', Str_cell ''Lee''])]"
    by (simp add: inserts_def select_columns_def songs_by_session_columns_def
          songs_by_user_columns_def users_by_song_columns_def ev_def)
  have s: "adds_succeed typed_bind always_fail 0 [ev]"
    by (rule adds_succeed_small) (simp_all add: binds_ev MAX_STATEMENTS_def)
  have t: "trace always_fail 0 [] [[ev]] = [(inserts ev, Some ''unavailable'')]"
    by (simp add: always_fail_def)
  from loader_metrics [OF s] obtain l where
    H: "load typed_bind always_fail 0 [ev] =
            Inr (l, (int (length (filter (\<lambda>p. snd p = None) (executed l))), 3 * int (length [ev])))
          \<and> executed l = trace always_fail 0 [] (read_csv CHUNK_SIZE [ev])
          \<and> length (executed l) = (if [ev] = [] then 1 else (length [ev] + 99) div 100)" ..
  note a = H [THEN conjunct1] and e = H [THEN conjunct2, THEN conjunct1]
  from e have e': "executed l = [(inserts ev, Some ''unavailable'')]"
    by (simp only: read_csv_single t)
  from a have p: "printed_by (load typed_bind always_fail 0 [ev]) = Some (0, 3)"
    by (simp add: printed_by_def e')
  from a have x: "executed (state_of (load typed_bind always_fail 0 [ev])) = [(inserts ev, Some ''unavailable'')]"
    by (simp add: state_of_def e')
  from s p x show ?thesis
    unfolding i by (intro conjI)
qed

lemma load_unbound:
  "\<not> binds bind row \<Longrightarrow>
   raised_by (load bind exec st [row]) \<noteq> None
   \<and> printed_by (load bind exec st [row]) = None
   \<and> executed (state_of (load bind exec st [row])) = []"
proof -
  assume nb: "\<not> binds bind row"
  let ?init = "\<lparr>batches = 0, records = 0, batch = [], session = st, executed = [], stdout = []\<rparr>"
  from add_row_unbound [OF nb, of ?init] obtain e l' where
    a: "add_row bind ?init row = Inl (e, l')" and x: "executed l' = executed ?init"
    by blast
  have r: "read_csv CHUNK_SIZE [row] = [[row]]"
    unfolding CHUNK_SIZE_def read_csv_def by (simp add: frames_one_frame)
  from a have "load bind exec st [row] = Inl (e, l')"
    by (simp add: load_def r process_chunk_def)
  with x show ?thesis
    by (simp add: raised_by_def printed_by_def state_of_def)
qed

text \<open>
  Three inputs on which the counts of the specification are not met. With one record
  and a store that refuses the batch, one batch is executed and the cell prints 0
  batches. With no record at all, the one empty frame leads to one executed batch,
  which the cell counts, where ceil(0 / 100) is 0. With one record whose title is
  missing, the title does not bind: no batch is executed and nothing is printed.
\<close>
theorem loader_metrics_counterexample:
  "printed_by (load typed_bind always_fail 0 [ev]) = Some (0, 3)
   \<and> length (executed (state_of (load typed_bind always_fail 0 [ev]))) = 1
   \<and> printed_by (load typed_bind accept_all 0 []) = Some (1, 0)
   \<and> length (executed (state_of (load typed_bind accept_all 0 []))) = 1
   \<and> (length ([] :: cell event list) + 99) div 100 = 0
   \<and> printed_by (load typed_bind accept_all 0 [ev_no_title]) = None
   \<and> executed (state_of (load typed_bind accept_all 0 [ev_no_title])) = []"
proof -
  let ?init = "\<lparr>batches = 0, records = 0, batch = [], session = 0::nat,
                executed = [] :: (cell statement list \<times> string option) list, stdout = []\<rparr>"
  have s1: "adds_succeed typed_bind always_fail 0 [ev]"
    by (rule adds_succeed_small) (simp_all add: binds_ev MAX_STATEMENTS_def)
  have s0: "adds_succeed typed_bind accept_all 0 []"
    by (rule adds_succeed_small) (simp_all add: MAX_STATEMENTS_def)
  have t1: "trace always_fail 0 [] [[ev]] = [(inserts ev, Some ''unavailable'')]"
    by (simp add: always_fail_def)
  have t0: "trace accept_all 0 [] [[]] = [([], None)]"
    by (simp add: accept_all_def)
  have 1: "printed_by (load typed_bind always_fail 0 [ev]) = Some (0, 3)"
    by (simp add: load_ok [OF s1] printed_by_def read_csv_single always_fail_def)
  have 2: "length (executed (state_of (load typed_bind always_fail 0 [ev]))) = 1"
    unfolding load_ok [OF s1] state_of_def
    by (simp only: sum.case prod.case after_frames_executed loader.simps append_Nil trace_length
          read_csv_single) simp
  have 3: "printed_by (load typed_bind accept_all 0 []) = Some (1, 0)"
    by (simp add: load_ok [OF s0] printed_by_def read_csv_empty accept_all_def)
  have 4: "length (executed (state_of (load typed_bind accept_all 0 []))) = 1"
    unfolding load_ok [OF s0] state_of_def
    by (simp only: sum.case prod.case after_frames_executed loader.simps append_Nil trace_length
          read_csv_empty) simp
  note u = load_unbound [OF not_binds_ev_no_title, of accept_all 0]
  from 1 2 3 4 u show ?thesis by simp
qed






section \<open>Facts about the teardown cells\<close>

lemma execute_drops_refused:
  "drp (db t) x = (Some e, d) \<Longrightarrow>
   execute_drops drp t (x # xs) = (Some e, t\<lparr>db := d, attempts := attempts t @ [x]\<rparr>)"
  by simp

lemma execute_drops_accepted:
  "drp (db t) x = (None, d) \<Longrightarrow>
   execute_drops drp t (x # xs) = execute_drops drp (t\<lparr>db := d, attempts := attempts t @ [x]\<rparr>) xs"
  by simp

text \<open>
  C4 (amended). The three drops are sent in order inside one guarded block: the first
  that fails is reported, once, and ends the block, so the drops after it are not
  attempted. No failure is fatal: in every case the session and the cluster connection
  are then released. The four cases, by the answers of the store, give the whole state
  after the two cells.
\<close>
theorem teardown_single_guard:
  "(let (r1, d1) = drp (db t) songs_by_session;
        (r2, d2) = drp d1 songs_by_user;
        (r3, d3) = drp d2 users_by_song
    in (r1 = Some e \<longrightarrow>
          run_teardown drp t =
            t\<lparr>db := d1, attempts := attempts t @ [songs_by_session],
              printed := printed t @ [''Error while dropping the table'', e],
              session_open := False, cluster_open := False\<rparr>)
     \<and> (r1 = None \<and> r2 = Some e \<longrightarrow>
          run_teardown drp t =
            t\<lparr>db := d2, attempts := attempts t @ [songs_by_session, songs_by_user],
              printed := printed t @ [''Error while dropping the table'', e],
              session_open := False, cluster_open := False\<rparr>)
     \<and> (r1 = None \<and> r2 = None \<and> r3 = Some e \<longrightarrow>
          run_teardown drp t =
            t\<lparr>db := d3, attempts := attempts t @ [songs_by_session, songs_by_user, users_by_song],
              printed := printed t @ [''Error while dropping the table'', e],
              session_open := False, cluster_open := False\<rparr>)
     \<and> (r1 = None \<and> r2 = None \<and> r3 = None \<longrightarrow>
          run_teardown drp t =
            t\<lparr>db := d3, attempts := attempts t @ [songs_by_session, songs_by_user, users_by_song],
              session_open := False, cluster_open := False\<rparr>))
   \<and> \<not> session_open (run_teardown drp t) \<and> \<not> cluster_open (run_teardown drp t)"
proof -
  obtain r1 d1 where 1: "drp (db t) songs_by_session = (r1, d1)"
    by (cases "drp (db t) songs_by_session")
  obtain r2 d2 where 2: "drp d1 songs_by_user = (r2, d2)"
    by (cases "drp d1 songs_by_user")
  obtain r3 d3 where 3: "drp d2 users_by_song = (r3, d3)"
    by (cases "drp d2 users_by_song")
  have a: "r1 = Some e \<longrightarrow>
          run_teardown drp t =
            t\<lparr>db := d1, attempts := attempts t @ [songs_by_session],
              printed := printed t @ [''Error while dropping the table'', e],
              session_open := False, cluster_open := False\<rparr>"
    using 1 by (simp add: run_teardown_def drop_tables_def close_session_def)
  have b: "r1 = None \<and> r2 = Some e \<longrightarrow>
          run_teardown drp t =
            t\<lparr>db := d2, attempts := attempts t @ [songs_by_session, songs_by_user],
              printed := printed t @ [''Error while dropping the table'', e],
              session_open := False, cluster_open := False\<rparr>"
    using 1 2 by (simp add: run_teardown_def drop_tables_def close_session_def)
  have c: "r1 = None \<and> r2 = None \<and> r3 = Some e \<longrightarrow>
          run_teardown drp t =
            t\<lparr>db := d3, attempts := attempts t @ [songs_by_session, songs_by_user, users_by_song],
              printed := printed t @ [''Error while dropping the table'', e],
              session_open := False, cluster_open := False\<rparr>"
    using 1 2 3 by (simp add: run_teardown_def drop_tables_def close_session_def)
  have d: "r1 = None \<and> r2 = None \<and> r3 = None \<longrightarrow>
          run_teardown drp t =
            t\<lparr>db := d3, attempts := attempts t @ [songs_by_session, songs_by_user, users_by_song],
              session_open := False, cluster_open := False\<rparr>"
    using 1 2 3 by (simp add: run_teardown_def drop_tables_def close_session_def)
  have closed: "\<not> session_open (run_teardown drp t) \<and> \<not> cluster_open (run_teardown drp t)"
    by (simp add: run_teardown_def close_session_def)
  from a b c d closed show ?thesis
    by (simp only: 1 2 3 Let_def prod.case) blast
qed

theorem teardown_single_guard_witness:
  "drop_existing [songs_by_session, users_by_song] songs_by_session = (None, [users_by_song])
   \<and> drop_existing [users_by_song] songs_by_user = (Some ''unconfigured table'', [users_by_song])
   \<and> run_teardown drop_existing
        \<lparr>db = [songs_by_session, users_by_song], attempts = [], printed = [],
         session_open = True, cluster_open = True\<rparr> =
       \<lparr>db = [users_by_song], attempts = [songs_by_session, songs_by_user],
        printed = [''Error while dropping the table'', ''unconfigured table''],
        session_open = False, cluster_open = False\<rparr>"
proof -
  let ?t = "\<lparr>db = [songs_by_session, users_by_song], attempts = [], printed = [],
         session_open = True, cluster_open = True\<rparr>"
  have 1: "drop_existing [songs_by_session, users_by_song] songs_by_session = (None, [users_by_song])"
    by (simp add: drop_existing_def)
  have 2: "drop_existing [users_by_song] songs_by_user = (Some ''unconfigured table'', [users_by_song])"
    by (simp add: drop_existing_def)
  from teardown_single_guard [of drop_existing ?t "''unconfigured table''"]
  have "run_teardown drop_existing ?t =
       \<lparr>db = [users_by_song], attempts = [songs_by_session, songs_by_user],
        printed = [''Error while dropping the table'', ''unconfigured table''],
        session_open = False, cluster_open = False\<rparr>"
    by (simp add: 1 2 Let_def split: prod.splits)
  with 1 2 show ?thesis by (intro conjI)
qed

text \<open>
  The drops are not independent: in a store where \<open>songs_by_session\<close> was never created
  and the other two tables exist, only the first drop is attempted and the other two
  tables are still there after the cells have run.
\<close>
theorem teardown_counterexample:
  "attempts (run_teardown drop_existing
        \<lparr>db = [songs_by_user, users_by_song], attempts = [], printed = [],
         session_open = True, cluster_open = True\<rparr>) = [songs_by_session]
   \<and> db (run_teardown drop_existing
        \<lparr>db = [songs_by_user, users_by_song], attempts = [], printed = [],
         session_open = True, cluster_open = True\<rparr>) = [songs_by_user, users_by_song]"
  by (simp add: run_teardown_def close_session_def drop_tables_def drop_existing_def)

end
